theory Spec2Isabelle
  imports Complex_Main "HOL-Library.Multiset" "HOL-Library.Sublist"
begin

section \<open>RackPower-Architect: the CSV importer and rack allocator (src/utils/csvParser.ts)\<close>

text \<open>
  The embedding follows \<^verbatim>\<open>parseCSV\<close> line by line. Conventions:
  \<^item> a JavaScript string is a \<^typ>\<open>string\<close>; the characters are the code units 0..255;
  \<^item> \<^verbatim>\<open>undefined\<close> (a row index beyond the row's length) is \<open>None\<close>;
  \<^item> a Number that holds an integer (\<^verbatim>\<open>parseInt\<close>, counters) is an \<^typ>\<open>int\<close> or
    \<^typ>\<open>nat\<close>, exact at every size, with \<open>None\<close> for NaN; a Number that holds a power
    figure is a \<open>number\<close>: NaN, the two infinities, or a finite value taken as an exact
    real (the rounding and the overflow of IEEE doubles are not part of the model, and
    the two zeros are one). The model and the implementation give the same integers
    below \<open>2 ^ 53\<close>; a statement whose truth depends on larger ones, or on a literal
    that rounds to 0, carries that bound as a hypothesis;
  \<^item> the \<^verbatim>\<open>Map\<close> \<^verbatim>\<open>racksMap\<close>, which iterates in insertion order, is an association
    list in insertion order;
  \<^item> lists have no bound on their length: a quantity too large for the implementation to
    hold in memory is outside the model.
\<close>

subsection \<open>Strings\<close>

definition dquote :: char where
  "dquote = CHR 0x22"

definition comma :: char where
  "comma = CHR '',''"

definition newline :: char where
  "newline = CHR 0x0A"

definition hyphen :: char where
  "hyphen = CHR ''-''"

text \<open>White space as \<^verbatim>\<open>String.prototype.trim\<close>, \<^verbatim>\<open>\s\<close>, \<^verbatim>\<open>parseInt\<close> and
  \<^verbatim>\<open>parseFloat\<close> see it: TAB, LF, VT, FF, CR, SP and NBSP.\<close>

definition isSpace :: "char \<Rightarrow> bool" where
  "isSpace c \<longleftrightarrow> c \<in> set [CHR 0x09, CHR 0x0A, CHR 0x0B, CHR 0x0C, CHR 0x0D, CHR 0x20, CHR 0xA0]"

definition trimStart :: "string \<Rightarrow> string" where
  "trimStart s = dropWhile isSpace s"

definition trim :: "string \<Rightarrow> string" where
  "trim s = rev (dropWhile isSpace (rev (dropWhile isSpace s)))"

text \<open>\<^verbatim>\<open>s.split(c)\<close> for a one-character separator: always at least one piece.\<close>

fun splitOn :: "char \<Rightarrow> string \<Rightarrow> string list" where
  "splitOn c [] = [[]]"
| "splitOn c (x # xs) =
     (if x = c then [] # splitOn c xs
      else (case splitOn c xs of p # ps \<Rightarrow> (x # p) # ps | [] \<Rightarrow> [[x]]))"

text \<open>\<^verbatim>\<open>s.replace(/^"|"$/g, '')\<close>: a quote at the start is removed, and a quote at the
  end of what is left is removed.\<close>

definition stripQuotes :: "string \<Rightarrow> string" where
  "stripQuotes s =
     (let s1 = (case s of c # r \<Rightarrow> if c = dquote then r else s | [] \<Rightarrow> s)
      in if s1 \<noteq> [] \<and> last s1 = dquote then butlast s1 else s1)"

text \<open>\<^verbatim>\<open>s.replace(/\s+/g, '-')\<close>: every maximal run of white space becomes one hyphen.\<close>

function replaceSpaces :: "string \<Rightarrow> string" where
  "replaceSpaces [] = []"
| "replaceSpaces (c # cs) =
     (if isSpace c then hyphen # replaceSpaces (dropWhile isSpace cs)
      else c # replaceSpaces cs)"
  by pat_completeness auto
termination
  by (relation "measure length") (auto simp: length_dropWhile_le less_Suc_eq_le)

text \<open>\<^verbatim>\<open>toLowerCase\<close> on the code units 0..255: A-Z, and the Latin-1 capitals
  0xC0-0xDE without the multiplication sign 0xD7, each 32 places below its small letter.\<close>

definition upperChars :: string where
  "upperChars = ''ABCDEFGHIJKLMNOPQRSTUVWXYZ'' @
     [CHR 0xC0, CHR 0xC1, CHR 0xC2, CHR 0xC3, CHR 0xC4, CHR 0xC5, CHR 0xC6, CHR 0xC7,
      CHR 0xC8, CHR 0xC9, CHR 0xCA, CHR 0xCB, CHR 0xCC, CHR 0xCD, CHR 0xCE, CHR 0xCF,
      CHR 0xD0, CHR 0xD1, CHR 0xD2, CHR 0xD3, CHR 0xD4, CHR 0xD5, CHR 0xD6,
      CHR 0xD8, CHR 0xD9, CHR 0xDA, CHR 0xDB, CHR 0xDC, CHR 0xDD, CHR 0xDE]"

definition lowerChars :: string where
  "lowerChars = ''abcdefghijklmnopqrstuvwxyz'' @
     [CHR 0xE0, CHR 0xE1, CHR 0xE2, CHR 0xE3, CHR 0xE4, CHR 0xE5, CHR 0xE6, CHR 0xE7,
      CHR 0xE8, CHR 0xE9, CHR 0xEA, CHR 0xEB, CHR 0xEC, CHR 0xED, CHR 0xEE, CHR 0xEF,
      CHR 0xF0, CHR 0xF1, CHR 0xF2, CHR 0xF3, CHR 0xF4, CHR 0xF5, CHR 0xF6,
      CHR 0xF8, CHR 0xF9, CHR 0xFA, CHR 0xFB, CHR 0xFC, CHR 0xFD, CHR 0xFE]"

definition lowerChar :: "char \<Rightarrow> char" where
  "lowerChar c = (case map_of (zip upperChars lowerChars) c of Some l \<Rightarrow> l | None \<Rightarrow> c)"

definition toLowerCase :: "string \<Rightarrow> string" where
  "toLowerCase s = map lowerChar s"

text \<open>\<^verbatim>\<open>h.includes(k)\<close>: \<open>k\<close> occurs in \<open>h\<close> as a contiguous run.\<close>

fun startsWith :: "string \<Rightarrow> string \<Rightarrow> bool" where
  "startsWith s [] = True"
| "startsWith [] (k # ks) = False"
| "startsWith (c # cs) (k # ks) = (if c = k then startsWith cs ks else False)"

fun includesStr :: "string \<Rightarrow> string \<Rightarrow> bool" where
  "includesStr [] k = (k = [])"
| "includesStr (c # cs) k = (if startsWith (c # cs) k then True else includesStr cs k)"

text \<open>\<^verbatim>\<open>xs.some(p)\<close>.\<close>

fun some :: "('a \<Rightarrow> bool) \<Rightarrow> 'a list \<Rightarrow> bool" where
  "some P [] = False"
| "some P (x # xs) = (if P x then True else some P xs)"

text \<open>Number to string for a non-negative integer counter: its decimal digits.\<close>

definition digitChar :: "nat \<Rightarrow> char" where
  "digitChar n = ''0123456789'' ! n"

fun decimal :: "nat \<Rightarrow> string" where
  "decimal n =
     (if n < 10 then [digitChar n] else decimal (n div 10) @ [digitChar (n mod 10)])"

declare decimal.simps [simp del]

subsection \<open>parseLine\<close>

text \<open>The loop of \<^verbatim>\<open>parseLine\<close> over the characters, with its three variables
  \<^verbatim>\<open>result\<close>, \<^verbatim>\<open>cell\<close> and \<^verbatim>\<open>inQuotes\<close>; the last equation is the push after the loop.\<close>

fun parseLineLoop :: "string list \<Rightarrow> string \<Rightarrow> bool \<Rightarrow> string \<Rightarrow> string list" where
  "parseLineLoop result cell inQuotes [] = result @ [trim cell]"
| "parseLineLoop result cell inQuotes (c # cs) =
     (if c = dquote then parseLineLoop result cell (\<not> inQuotes) cs
      else if c = comma \<and> \<not> inQuotes then parseLineLoop (result @ [trim cell]) [] inQuotes cs
      else parseLineLoop result (cell @ [c]) inQuotes cs)"

definition parseLine :: "string \<Rightarrow> string list" where
  "parseLine text = parseLineLoop [] [] False text"

subsection \<open>Numbers\<close>

datatype number = NaN | NegInf | Fin real | PosInf

text \<open>The arithmetic of IEEE doubles on these values. On finite operands the result is the
  exact product, quotient or sum: the implementation rounds it to a double, to an
  infinity when it is too large and to 0 when it is too small, so its result can differ in
  size from this one, never in being negative. A finite divisor that is zero is taken as
  the positive zero.\<close>

fun numMul :: "number \<Rightarrow> number \<Rightarrow> number" where
  "numMul (Fin a) (Fin b) = Fin (a * b)"
| "numMul (Fin a) PosInf = (if a = 0 then NaN else if 0 < a then PosInf else NegInf)"
| "numMul (Fin a) NegInf = (if a = 0 then NaN else if 0 < a then NegInf else PosInf)"
| "numMul PosInf (Fin b) = (if b = 0 then NaN else if 0 < b then PosInf else NegInf)"
| "numMul NegInf (Fin b) = (if b = 0 then NaN else if 0 < b then NegInf else PosInf)"
| "numMul PosInf PosInf = PosInf"
| "numMul PosInf NegInf = NegInf"
| "numMul NegInf PosInf = NegInf"
| "numMul NegInf NegInf = PosInf"
| "numMul NaN y = NaN"
| "numMul x NaN = NaN"

fun numDiv :: "number \<Rightarrow> number \<Rightarrow> number" where
  "numDiv (Fin a) (Fin b) =
     (if b = 0 then (if a = 0 then NaN else if 0 < a then PosInf else NegInf)
      else Fin (a / b))"
| "numDiv (Fin a) PosInf = Fin 0"
| "numDiv (Fin a) NegInf = Fin 0"
| "numDiv PosInf (Fin b) = (if 0 \<le> b then PosInf else NegInf)"
| "numDiv NegInf (Fin b) = (if 0 \<le> b then NegInf else PosInf)"
| "numDiv PosInf PosInf = NaN"
| "numDiv PosInf NegInf = NaN"
| "numDiv NegInf PosInf = NaN"
| "numDiv NegInf NegInf = NaN"
| "numDiv NaN y = NaN"
| "numDiv x NaN = NaN"

fun numAdd :: "number \<Rightarrow> number \<Rightarrow> number" where
  "numAdd (Fin a) (Fin b) = Fin (a + b)"
| "numAdd (Fin a) PosInf = PosInf"
| "numAdd (Fin a) NegInf = NegInf"
| "numAdd PosInf (Fin b) = PosInf"
| "numAdd NegInf (Fin b) = NegInf"
| "numAdd PosInf PosInf = PosInf"
| "numAdd PosInf NegInf = NaN"
| "numAdd NegInf PosInf = NaN"
| "numAdd NegInf NegInf = NegInf"
| "numAdd NaN y = NaN"
| "numAdd x NaN = NaN"

text \<open>\<^verbatim>\<open>x > 0\<close> and \<^verbatim>\<open>x >= 0\<close>: both false on NaN.\<close>

fun numPositive :: "number \<Rightarrow> bool" where
  "numPositive (Fin a) = (0 < a)"
| "numPositive PosInf = True"
| "numPositive NegInf = False"
| "numPositive NaN = False"

fun numNonNegative :: "number \<Rightarrow> bool" where
  "numNonNegative (Fin a) = (0 \<le> a)"
| "numNonNegative PosInf = True"
| "numNonNegative NegInf = False"
| "numNonNegative NaN = False"

text \<open>A count or quantity as an operand. It is always finite here; in the implementation
  it is \<^verbatim>\<open>Infinity\<close> when \<^verbatim>\<open>parseInt\<close> returned that.\<close>

definition ofInt :: "int \<Rightarrow> number" where
  "ofInt n = Fin (of_int n)"

subsection \<open>parseInt and parseFloat\<close>

definition isDigit :: "char \<Rightarrow> bool" where
  "isDigit c \<longleftrightarrow> c \<in> set ''0123456789''"

definition isHexDigit :: "char \<Rightarrow> bool" where
  "isHexDigit c \<longleftrightarrow> c \<in> set ''0123456789abcdefABCDEF''"

text \<open>The position of a character in a string (its length when absent).\<close>

fun indexOf :: "char \<Rightarrow> string \<Rightarrow> nat" where
  "indexOf c [] = 0"
| "indexOf c (x # xs) = (if c = x then 0 else Suc (indexOf c xs))"

definition digitValue :: "char \<Rightarrow> nat" where
  "digitValue c =
     (if c \<in> set ''ABCDEF'' then 10 + indexOf c ''ABCDEF'' else indexOf c ''0123456789abcdef'')"

definition digitsValue :: "nat \<Rightarrow> string \<Rightarrow> nat" where
  "digitsValue radix ds = foldl (\<lambda>acc c. acc * radix + digitValue c) 0 ds"

text \<open>A leading sign: whether it is a minus, and the rest.\<close>

definition takeSign :: "string \<Rightarrow> bool \<times> string" where
  "takeSign s =
     (case s of
        [] \<Rightarrow> (False, [])
      | c # r \<Rightarrow> if c = CHR ''-'' then (True, r) else if c = CHR ''+'' then (False, r) else (False, s))"

text \<open>\<^verbatim>\<open>parseInt(x)\<close> with no radix: leading white space, a sign, \<^verbatim>\<open>0x\<close> for base 16,
  then the longest run of digits; NaN (\<open>None\<close>) when there is no digit. \<^verbatim>\<open>undefined\<close>
  reads as the text "undefined", which has none. The value is the exact integer of the
  digits: the implementation's is the same below \<open>2 ^ 53\<close>, rounded to a double above,
  and \<^verbatim>\<open>Infinity\<close> from about 309 decimal digits on.\<close>

definition parseInt :: "string option \<Rightarrow> int option" where
  "parseInt x =
     (case x of
        None \<Rightarrow> None
      | Some s \<Rightarrow>
          (let (neg, u) = takeSign (trimStart s);
               hex = (startsWith u ''0x'' \<or> startsWith u ''0X'');
               v = (if hex then drop 2 u else u);
               ds = takeWhile (if hex then isHexDigit else isDigit) v;
               n = int (digitsValue (if hex then 16 else 10) ds)
           in if ds = [] then None else Some (if neg then - n else n)))"

text \<open>The exponent part \<^verbatim>\<open>e[+-]digits\<close> at the head of a string, 0 when it is absent
  or has no digit.\<close>

definition exponentOf :: "string \<Rightarrow> int" where
  "exponentOf s =
     (case s of
        [] \<Rightarrow> 0
      | c # r \<Rightarrow>
          if c = CHR ''e'' \<or> c = CHR ''E'' then
            (let (neg, u) = takeSign r; ds = takeWhile isDigit u; n = int (digitsValue 10 ds)
             in if ds = [] then 0 else if neg then - n else n)
          else 0)"

definition scale10 :: "real \<Rightarrow> int \<Rightarrow> real" where
  "scale10 x e = (if 0 \<le> e then x * 10 ^ nat e else x / 10 ^ nat (- e))"

text \<open>\<^verbatim>\<open>parseFloat(x)\<close>: leading white space, a sign, then \<^verbatim>\<open>Infinity\<close> or the longest
  decimal literal (digits, a fraction, an exponent); NaN when there is none. The value is
  the exact value of the literal: the implementation rounds it to a double, which keeps
  its sign, gives 0 for a literal below \<open>1 / 2 ^ 1075\<close> in size and an infinity for one of
  about \<open>2 ^ 1024\<close> or more.\<close>

definition parseFloat :: "string option \<Rightarrow> number" where
  "parseFloat x =
     (case x of
        None \<Rightarrow> NaN
      | Some s \<Rightarrow>
          (let (neg, u) = takeSign (trimStart s)
           in if startsWith u ''Infinity'' then (if neg then NegInf else PosInf)
              else
                (let ip = takeWhile isDigit u;
                     r1 = dropWhile isDigit u;
                     dot = (r1 \<noteq> [] \<and> hd r1 = CHR ''.'');
                     fp = (if dot then takeWhile isDigit (tl r1) else []);
                     r2 = (if dot then dropWhile isDigit (tl r1) else r1);
                     m = real (digitsValue 10 ip) + real (digitsValue 10 fp) / 10 ^ length fp;
                     v = scale10 m (exponentOf r2)
                 in if ip = [] \<and> fp = [] then NaN else Fin (if neg then - v else v))))"

subsection \<open>The data model (../types)\<close>

text \<open>\<^verbatim>\<open>Device\<close> and \<^verbatim>\<open>RackGroup\<close> as \<^verbatim>\<open>parseCSV\<close> builds them. A power-supply
  connection is \<^verbatim>\<open>null\<close> (\<open>None\<close>) or a PDU identifier with an outlet index; the object
  \<^verbatim>\<open>psuConnections\<close> is the list of its entries.\<close>

record Device =
  idStr :: string
  name :: string
  room :: string
  psuCount :: int
  typicalPower :: number
  powerRatingPerDevice :: number
  connectionType :: string
  uHeight :: int
  uPosition :: "int option"
  psuConnections :: "(nat \<times> (string \<times> nat) option) list"

record RackGroup =
  roomId :: string
  devices :: "Device list"
  totalPower :: number

subsection \<open>Column resolution\<close>

text \<open>\<^verbatim>\<open>findIndex\<close>, with \<open>None\<close> for -1.\<close>

fun findIndex :: "('a \<Rightarrow> bool) \<Rightarrow> 'a list \<Rightarrow> nat option" where
  "findIndex P [] = None"
| "findIndex P (x # xs) = (if P x then Some 0 else map_option Suc (findIndex P xs))"

definition getColIndex :: "string list \<Rightarrow> string list \<Rightarrow> nat option" where
  "getColIndex headers keywords =
     findIndex (\<lambda>h. some (\<lambda>k. includesStr (toLowerCase h) (toLowerCase k)) keywords) headers"

record Columns =
  idxRoom :: "nat option"
  idxDevice :: "nat option"
  idxRackU :: "nat option"
  idxQty :: "nat option"
  idxPSCount :: "nat option"
  idxMaxPowerPerDevice :: "nat option"
  idxTypicalPower :: "nat option"
  idxTotalMaxPower :: "nat option"
  idxConnType :: "nat option"
  idxPSURating :: "nat option"

definition resolveColumns :: "string list \<Rightarrow> Columns" where
  "resolveColumns headers =
     \<lparr> idxRoom = getColIndex headers [''Room'', ''Location'', ''Rack Name''],
       idxDevice = getColIndex headers [''Device'', ''Model'', ''Equipment''],
       idxRackU = getColIndex headers [''Rack Size'', ''Size (U)'', ''U Height'', ''Height''],
       idxQty = getColIndex headers
         [''Total No. of Device'', ''Quantity'', ''Qty'', ''Count'', ''No. of Devices''],
       idxPSCount = getColIndex headers [''Total No. of PS'', ''PSU Count'', ''Power Supplies''],
       idxMaxPowerPerDevice = getColIndex headers [''Max Power (Watt)'', ''Max Power'', ''Power (W)''],
       idxTypicalPower = getColIndex headers [''Typical Power'', ''Typical Load''],
       idxTotalMaxPower = getColIndex headers [''Total Max Power Consumption'', ''Total Power''],
       idxConnType = getColIndex headers [''Connection Type'', ''Plug Type'', ''Socket''],
       idxPSURating = getColIndex headers [''PSU Rating'', ''PSU W'', ''Power Supply Rating''] \<rparr>"

subsection \<open>One data row\<close>

text \<open>\<^verbatim>\<open>row[idx]\<close>: \<^verbatim>\<open>undefined\<close> beyond the end of the row.\<close>

definition cell :: "string list \<Rightarrow> nat \<Rightarrow> string option" where
  "cell row idx = (if idx < length row then Some (row ! idx) else None)"

text \<open>The skip test \<^verbatim>\<open>row.length < headers.length * 0.5 && row.length < 2\<close>.\<close>

definition skipRow :: "string list \<Rightarrow> string list \<Rightarrow> bool" where
  "skipRow headers row \<longleftrightarrow> 2 * length row < length headers \<and> length row < 2"

definition defaultRoom :: string where
  "defaultRoom = ''Default Room''"

text \<open>The room logic: the row's room and the new value of \<^verbatim>\<open>lastRoom\<close>.\<close>

definition roomOf :: "Columns \<Rightarrow> string \<Rightarrow> string list \<Rightarrow> string \<times> string" where
  "roomOf cols lastRoom row =
     (case idxRoom cols of
        Some ix \<Rightarrow>
          (case cell row ix of
             Some val \<Rightarrow>
               if val \<noteq> [] \<and> length (trim (stripQuotes val)) > 0
               then (trim (stripQuotes val), trim (stripQuotes val))
               else (lastRoom, lastRoom)
           | None \<Rightarrow> (lastRoom, lastRoom))
      | None \<Rightarrow> (defaultRoom, lastRoom))"

text \<open>\<^verbatim>\<open>idx !== -1 ? (row[idx]?.replace(/^"|"$/g, '') || dflt) : dflt\<close>.\<close>

definition textOr :: "nat option \<Rightarrow> string list \<Rightarrow> string \<Rightarrow> string" where
  "textOr idx row dflt =
     (case idx of
        Some ix \<Rightarrow>
          (case cell row ix of
             Some val \<Rightarrow> if stripQuotes val = [] then dflt else stripQuotes val
           | None \<Rightarrow> dflt)
      | None \<Rightarrow> dflt)"

definition deviceNameOf :: "Columns \<Rightarrow> string list \<Rightarrow> string" where
  "deviceNameOf cols row = textOr (idxDevice cols) row ''Unknown Device''"

definition connectionTypeOf :: "Columns \<Rightarrow> string list \<Rightarrow> string" where
  "connectionTypeOf cols row = textOr (idxConnType cols) row ''C13''"

text \<open>\<^verbatim>\<open>let n = dflt; if (idx !== -1) { const parsed = parseInt(row[idx]);
  if (!isNaN(parsed) && parsed > 0) n = parsed; }\<close>\<close>

definition positiveIntOr :: "nat option \<Rightarrow> string list \<Rightarrow> int \<Rightarrow> int" where
  "positiveIntOr idx row dflt =
     (case idx of
        Some ix \<Rightarrow> (case parseInt (cell row ix) of Some parsed \<Rightarrow> if parsed > 0 then parsed else dflt
                                               | None \<Rightarrow> dflt)
      | None \<Rightarrow> dflt)"

definition qtyOf :: "Columns \<Rightarrow> string list \<Rightarrow> int" where
  "qtyOf cols row = positiveIntOr (idxQty cols) row 1"

definition psCountTotalOf :: "Columns \<Rightarrow> string list \<Rightarrow> int" where
  "psCountTotalOf cols row = positiveIntOr (idxPSCount cols) row (qtyOf cols row)"

definition psPerDeviceOf :: "Columns \<Rightarrow> string list \<Rightarrow> int" where
  "psPerDeviceOf cols row = max 1 (psCountTotalOf cols row div qtyOf cols row)"

definition uHeightOf :: "Columns \<Rightarrow> string list \<Rightarrow> int" where
  "uHeightOf cols row = positiveIntOr (idxRackU cols) row 1"

text \<open>\<^verbatim>\<open>idx !== -1 ? parseFloat(row[idx]) : NaN\<close>.\<close>

definition floatAt :: "nat option \<Rightarrow> string list \<Rightarrow> number" where
  "floatAt idx row = (case idx of Some ix \<Rightarrow> parseFloat (cell row ix) | None \<Rightarrow> NaN)"

definition rawMax :: "Columns \<Rightarrow> string list \<Rightarrow> number" where
  "rawMax cols row = floatAt (idxMaxPowerPerDevice cols) row"

definition rawTotal :: "Columns \<Rightarrow> string list \<Rightarrow> number" where
  "rawTotal cols row = floatAt (idxTotalMaxPower cols) row"

definition rawRating :: "Columns \<Rightarrow> string list \<Rightarrow> number" where
  "rawRating cols row = floatAt (idxPSURating cols) row"

definition maxPowerOf :: "Columns \<Rightarrow> string list \<Rightarrow> number" where
  "maxPowerOf cols row =
     (if rawMax cols row \<noteq> NaN \<and> numPositive (rawMax cols row) then rawMax cols row
      else if rawTotal cols row \<noteq> NaN \<and> numPositive (rawTotal cols row)
        then numDiv (rawTotal cols row) (ofInt (qtyOf cols row))
      else if rawRating cols row \<noteq> NaN
        then numMul (rawRating cols row) (ofInt (psPerDeviceOf cols row))
      else Fin 0)"

definition typicalPowerOf :: "Columns \<Rightarrow> string list \<Rightarrow> number" where
  "typicalPowerOf cols row =
     (let typical = floatAt (idxTypicalPower cols) row
      in if typical = NaN then numMul (maxPowerOf cols row) (Fin (6 / 10)) else typical)"

text \<open>The template \<^verbatim>\<open>`${room}-${deviceName}-${i}-${k}`.replace(/\s+/g, '-')\<close>.\<close>

definition deviceId :: "string \<Rightarrow> string \<Rightarrow> nat \<Rightarrow> nat \<Rightarrow> string" where
  "deviceId rm nm i k =
     replaceSpaces (rm @ [hyphen] @ nm @ [hyphen] @ decimal i @ [hyphen] @ decimal k)"

text \<open>The object literal of the inner loop, for replica \<open>k\<close> of the row at line \<open>i\<close>.\<close>

definition makeDevice :: "Columns \<Rightarrow> string \<Rightarrow> nat \<Rightarrow> string list \<Rightarrow> nat \<Rightarrow> Device" where
  "makeDevice cols rm i row k =
     \<lparr> idStr = deviceId rm (deviceNameOf cols row) i k,
       name = deviceNameOf cols row,
       room = rm,
       psuCount = psPerDeviceOf cols row,
       typicalPower = typicalPowerOf cols row,
       powerRatingPerDevice = maxPowerOf cols row,
       connectionType = connectionTypeOf cols row,
       uHeight = uHeightOf cols row,
       uPosition = None,
       psuConnections = [] \<rparr>"

subsection \<open>The grouping map and the row loop\<close>

text \<open>\<^verbatim>\<open>if (!racksMap.has(room)) racksMap.set(room, []); racksMap.get(room)?.push(device)\<close>
  on the entries of the map in insertion order: a new key goes to the end.\<close>

fun pushDevice :: "(string \<times> Device list) list \<Rightarrow> Device \<Rightarrow> (string \<times> Device list) list" where
  "pushDevice [] d = [(room d, [d])]"
| "pushDevice ((key, ds) # m) d =
     (if key = room d then (key, ds @ [d]) # m else (key, ds) # pushDevice m d)"

text \<open>The inner loop \<^verbatim>\<open>for (let k = 0; k < qty; k++)\<close>.\<close>

definition pushReplicas ::
  "Columns \<Rightarrow> string \<Rightarrow> nat \<Rightarrow> string list \<Rightarrow> (string \<times> Device list) list \<Rightarrow> (string \<times> Device list) list" where
  "pushReplicas cols rm i row m =
     foldl (\<lambda>acc k. pushDevice acc (makeDevice cols rm i row k)) m [0..<nat (qtyOf cols row)]"

text \<open>The outer loop over the lines after the header, each with its index \<open>i\<close>; the state
  is \<^verbatim>\<open>racksMap\<close> and \<^verbatim>\<open>lastRoom\<close>.\<close>

fun rowLoop ::
  "string list \<Rightarrow> Columns \<Rightarrow> (string \<times> Device list) list \<Rightarrow> string \<Rightarrow> (nat \<times> string) list
     \<Rightarrow> (string \<times> Device list) list" where
  "rowLoop headers cols racksMap lastRoom [] = racksMap"
| "rowLoop headers cols racksMap lastRoom ((i, line) # rest) =
     (let row = parseLine line
      in if skipRow headers row then rowLoop headers cols racksMap lastRoom rest
         else
           (let (rm, lastRoom') = roomOf cols lastRoom row
            in rowLoop headers cols (pushReplicas cols rm i row racksMap) lastRoom' rest))"

subsection \<open>The allocator\<close>

text \<open>The callback of \<^verbatim>\<open>devices.map\<close> with its captured cursor \<^verbatim>\<open>currentU\<close>: the
  device it returns and the cursor it leaves.\<close>

definition placeDevice :: "int \<Rightarrow> Device \<Rightarrow> Device \<times> int" where
  "placeDevice currentU d =
     (if currentU - uHeight d + 1 \<ge> 1
      then (d\<lparr>uPosition := Some currentU,
               psuConnections := map (\<lambda>p. (p, None)) [0..<nat (psuCount d)]\<rparr>,
            currentU - uHeight d)
      else (d\<lparr>uPosition := None, psuConnections := []\<rparr>, currentU))"

fun stackDevices :: "int \<Rightarrow> Device list \<Rightarrow> Device list" where
  "stackDevices currentU [] = []"
| "stackDevices currentU (d # ds) =
     fst (placeDevice currentU d) # stackDevices (snd (placeDevice currentU d)) ds"

definition sumPower :: "Device list \<Rightarrow> number" where
  "sumPower ds = foldl (\<lambda>sum d. numAdd sum (powerRatingPerDevice d)) (Fin 0) ds"

definition layoutRoom :: "string \<times> Device list \<Rightarrow> RackGroup" where
  "layoutRoom entry =
     (let positionedDevices = stackDevices 48 (snd entry)
      in \<lparr> roomId = fst entry, devices = positionedDevices,
           totalPower = sumPower positionedDevices \<rparr>)"

subsection \<open>parseCSV\<close>

definition textLines :: "string \<Rightarrow> string list" where
  "textLines csvText = splitOn newline (trim csvText)"

definition headersOf :: "string list \<Rightarrow> string list" where
  "headersOf lines = map (\<lambda>h. trim (stripQuotes h)) (parseLine (hd lines))"

text \<open>The data lines with their indices 1, 2, ... in \<^verbatim>\<open>lines\<close>.\<close>

definition dataLines :: "string list \<Rightarrow> (nat \<times> string) list" where
  "dataLines lines = zip [1..<length lines] (tl lines)"

definition parseCSV :: "string \<Rightarrow> RackGroup list" where
  "parseCSV csvText =
     (let lines = textLines csvText
      in if length lines < 2 then []
         else
           (let headers = headersOf lines;
                cols = resolveColumns headers;
                racksMap = rowLoop headers cols [] defaultRoom (dataLines lines)
            in map layoutRoom racksMap))"

section \<open>Notions used to state the properties\<close>

subsection \<open>The allocator's cursor\<close>

text \<open>The value of \<^verbatim>\<open>currentU\<close> after the callback has run on the devices \<open>ds\<close>,
  starting from \<open>currentU\<close>.\<close>

definition cursorAfter :: "int \<Rightarrow> Device list \<Rightarrow> int" where
  "cursorAfter currentU ds = foldl (\<lambda>cur d. snd (placeDevice cur d)) currentU ds"

text \<open>A record as the importer leaves it, before the allocator runs.\<close>

definition unplaced :: "Device \<Rightarrow> Device" where
  "unplaced d = d\<lparr>uPosition := None, psuConnections := []\<rparr>"

subsection \<open>The rows the importer processes\<close>

text \<open>The trace of the outer loop: for each line that is not skipped, its index, its
  fields and the room the loop gives it.\<close>

fun processedRows ::
  "string list \<Rightarrow> Columns \<Rightarrow> string \<Rightarrow> (nat \<times> string) list \<Rightarrow> (nat \<times> string list \<times> string) list" where
  "processedRows headers cols lastRoom [] = []"
| "processedRows headers cols lastRoom ((i, line) # rest) =
     (if skipRow headers (parseLine line) then processedRows headers cols lastRoom rest
      else (i, parseLine line, fst (roomOf cols lastRoom (parseLine line)))
           # processedRows headers cols (snd (roomOf cols lastRoom (parseLine line))) rest)"

definition columnsOf :: "string \<Rightarrow> Columns" where
  "columnsOf csvText = resolveColumns (headersOf (textLines csvText))"

definition importedRows :: "string \<Rightarrow> (nat \<times> string list \<times> string) list" where
  "importedRows csvText =
     (if length (textLines csvText) < 2 then []
      else processedRows (headersOf (textLines csvText)) (columnsOf csvText) defaultRoom
             (dataLines (textLines csvText)))"

text \<open>The records the inner loop builds for one processed row, and all of them in the
  order the loops build them.\<close>

definition rowRecords :: "Columns \<Rightarrow> nat \<times> string list \<times> string \<Rightarrow> Device list" where
  "rowRecords cols r =
     map (makeDevice cols (snd (snd r)) (fst r) (fst (snd r)))
       [0..<nat (qtyOf cols (fst (snd r)))]"

definition importedRecords :: "string \<Rightarrow> Device list" where
  "importedRecords csvText = concat (map (rowRecords (columnsOf csvText)) (importedRows csvText))"

subsection \<open>Grouping\<close>

text \<open>The distinct values of a list in the order of their first occurrence.\<close>

fun firstSeen :: "'a list \<Rightarrow> 'a list" where
  "firstSeen [] = []"
| "firstSeen (x # xs) = x # filter (\<lambda>y. y \<noteq> x) (firstSeen xs)"

text \<open>The position of the first occurrence of a value in a list.\<close>

fun firstIndex :: "'a \<Rightarrow> 'a list \<Rightarrow> nat" where
  "firstIndex x [] = 0"
| "firstIndex x (y # ys) = (if x = y then 0 else Suc (firstIndex x ys))"

text \<open>The records of a list by room: the rooms in first-seen order, each with its records
  in the order of the list.\<close>

definition groupsOf :: "Device list \<Rightarrow> (string \<times> Device list) list" where
  "groupsOf ds = map (\<lambda>k. (k, filter (\<lambda>d. room d = k) ds)) (firstSeen (map room ds))"

subsection \<open>Power figures\<close>

text \<open>\<^verbatim>\<open>x < 0\<close>: false on NaN.\<close>

fun numNegative :: "number \<Rightarrow> bool" where
  "numNegative (Fin a) = (a < 0)"
| "numNegative NegInf = True"
| "numNegative PosInf = False"
| "numNegative NaN = False"

text \<open>Columns for rows of a per-device max power, a total max power and a quantity.\<close>

definition bothPowerColumns :: Columns where
  "bothPowerColumns =
     \<lparr> idxRoom = None, idxDevice = None, idxRackU = None, idxQty = Some 2,
       idxPSCount = None, idxMaxPowerPerDevice = Some 0, idxTypicalPower = None,
       idxTotalMaxPower = Some 1, idxConnType = None, idxPSURating = None \<rparr>"

text \<open>An input whose only column is a power-supply rating, with a negative value.\<close>

definition negativeCsv :: string where
  "negativeCsv = ''PSU Rating'' @ [newline] @ ''-5''"

definition negativeColumns :: Columns where
  "negativeColumns =
     \<lparr> idxRoom = None, idxDevice = None, idxRackU = None, idxQty = None,
       idxPSCount = None, idxMaxPowerPerDevice = None, idxTypicalPower = None,
       idxTotalMaxPower = None, idxConnType = None, idxPSURating = Some 0 \<rparr>"

subsection \<open>Room cells\<close>

text \<open>The room cell of a row after cleaning, for a room column at \<open>ix\<close>: \<open>None\<close> when
  the row has no such cell or the cleaned cell is empty.\<close>

definition roomCell :: "nat \<Rightarrow> string list \<Rightarrow> string option" where
  "roomCell ix row =
     (case cell row ix of
        Some val \<Rightarrow> if trim (stripQuotes val) = [] then None else Some (trim (stripQuotes val))
      | None \<Rightarrow> None)"

text \<open>The nearest non-empty cell at or before place \<open>j\<close> of a column of cells, and
  \<open>dflt\<close> when there is none.\<close>

definition nearestFilled :: "string \<Rightarrow> string option list \<Rightarrow> nat \<Rightarrow> string" where
  "nearestFilled dflt cells j =
     (case filter (\<lambda>c. c \<noteq> None) (take (Suc j) cells) of
        [] \<Rightarrow> dflt
      | c # cs \<Rightarrow> the (last (c # cs)))"

text \<open>Fill-down over a column of cells, from a last-seen value.\<close>

fun fillDown :: "string \<Rightarrow> string option list \<Rightarrow> string list" where
  "fillDown lastSeen [] = []"
| "fillDown lastSeen (None # cs) = lastSeen # fillDown lastSeen cs"
| "fillDown lastSeen (Some v # cs) = v # fillDown v cs"

subsection \<open>Fields as the specification words them\<close>

text \<open>The raw fields of a line: split at every comma that is outside quotes, where each
  quote character toggles the inside-quotes state \<open>q\<close>; every character but the splitting
  commas is kept.\<close>

fun splitQuoted :: "bool \<Rightarrow> string \<Rightarrow> string list" where
  "splitQuoted q [] = [[]]"
| "splitQuoted q (c # cs) =
     (if c = comma \<and> \<not> q then [] # splitQuoted q cs
      else (case splitQuoted (if c = dquote then \<not> q else q) cs of
              f # fs \<Rightarrow> (c # f) # fs
            | [] \<Rightarrow> [[c]]))"

text \<open>The fields put together again, a comma between neighbours.\<close>

fun joinFields :: "string list \<Rightarrow> string" where
  "joinFields [] = []"
| "joinFields [f] = f"
| "joinFields (f # g # fs) = f @ comma # joinFields (g # fs)"

text \<open>The cleaning the specification describes: surrounding white space and one enclosing
  quote at each end are removed, nothing else.\<close>

definition specFields :: "string \<Rightarrow> string list" where
  "specFields line = map (\<lambda>f. stripQuotes (trim f)) (splitQuoted False line)"

text \<open>The cleaning the code does: every quote character is dropped, then surrounding white
  space.\<close>

definition cleanField :: "string \<Rightarrow> string" where
  "cleanField f = trim (filter (\<lambda>c. c \<noteq> dquote) f)"

text \<open>A field with quotes inside it.\<close>

definition innerQuotes :: string where
  "innerQuotes = ''a'' @ [dquote] @ ''b'' @ [dquote] @ ''c''"

subsection \<open>Where the number model is exact\<close>

text \<open>The smallest positive double, \<open>1 / 2 ^ 1074\<close>: a decimal literal of at least this
  value parses to a Number above 0 in the implementation too (a smaller positive one may
  round to 0 there).\<close>

definition minPositive :: real where
  "minPositive = 1 / 2 ^ 1074"

text \<open>\<^verbatim>\<open>x >= b\<close>: false on NaN.\<close>

fun numAtLeast :: "real \<Rightarrow> number \<Rightarrow> bool" where
  "numAtLeast b (Fin a) = (b \<le> a)"
| "numAtLeast b PosInf = True"
| "numAtLeast b NegInf = False"
| "numAtLeast b NaN = False"

text \<open>The condition on a row under which the sign of its max power is the same in the
  model and in the implementation, and is not negative: the per-device-max or the
  total-max cell parses to a positive double, or the rating cell is not negative and the
  row's power-supply total is below \<open>2 ^ 53\<close>. A larger total is rounded by the
  implementation's \<^verbatim>\<open>parseInt\<close> and is \<^verbatim>\<open>Infinity\<close> from about 309 digits on; the per-unit
  count is then \<^verbatim>\<open>Infinity\<close>, and a rating of 0 times it is NaN.\<close>

definition signGuard :: "Columns \<Rightarrow> string list \<Rightarrow> bool" where
  "signGuard cols row \<longleftrightarrow>
     numAtLeast minPositive (rawMax cols row)
     \<or> numAtLeast minPositive (rawTotal cols row)
     \<or> (\<not> numNegative (rawRating cols row) \<and> psCountTotalOf cols row < 2 ^ 53)"

subsection \<open>Fill-down as the loop does it\<close>

text \<open>The room of a processed row, from the value of \<^verbatim>\<open>lastRoom\<close> before it: its cleaned
  room cell when there is a room column and the cell is not empty, \<^verbatim>\<open>lastRoom\<close> when the
  cell is empty, the default label when there is no room column.\<close>

definition filledRoom :: "Columns \<Rightarrow> string \<Rightarrow> string list \<Rightarrow> string" where
  "filledRoom cols lastRoom row =
     (case idxRoom cols of
        None \<Rightarrow> defaultRoom
      | Some ix \<Rightarrow> (case roomCell ix row of Some v \<Rightarrow> v | None \<Rightarrow> lastRoom))"

text \<open>The value of \<^verbatim>\<open>lastRoom\<close> after a processed row: the cleaned room cell when it is
  not empty, else unchanged.\<close>

definition carriedRoom :: "Columns \<Rightarrow> string \<Rightarrow> string list \<Rightarrow> string" where
  "carriedRoom cols lastRoom row =
     (case idxRoom cols of
        None \<Rightarrow> lastRoom
      | Some ix \<Rightarrow> (case roomCell ix row of Some v \<Rightarrow> v | None \<Rightarrow> lastRoom))"

text \<open>The cleaned room cell of every data line of a text, skipped or not.\<close>

definition allRoomCells :: "nat \<Rightarrow> string \<Rightarrow> string option list" where
  "allRoomCells ix csvText =
     map (\<lambda>x. roomCell ix (parseLine (snd x))) (dataLines (textLines csvText))"

text \<open>An input with a one-field line, which the loop skips, before a row whose room cell
  is empty.\<close>

definition skippedRoomCsv :: string where
  "skippedRoomCsv = ''Room,Device,Qty'' @ [newline] @ ''Z'' @ [newline] @ '',sw,1''"

definition skippedRoomColumns :: Columns where
  "skippedRoomColumns =
     \<lparr> idxRoom = Some 0, idxDevice = Some 1, idxRackU = None, idxQty = Some 2,
       idxPSCount = None, idxMaxPowerPerDevice = None, idxTypicalPower = None,
       idxTotalMaxPower = None, idxConnType = None, idxPSURating = None \<rparr>"

subsection \<open>A worked input\<close>

text \<open>Four columns, three data rows; the second row leaves its room cell empty and the
  third has no usable power figure.\<close>

definition exampleCsv :: string where
  "exampleCsv = ''Room,Device,Qty,Max Power'' @ [newline] @ ''A,srv,2,500'' @ [newline]
     @ '',sw,1,100'' @ [newline] @ ''B,ups,1,x''"

definition exampleColumns :: Columns where
  "exampleColumns =
     \<lparr> idxRoom = Some 0, idxDevice = Some 1, idxRackU = None, idxQty = Some 2,
       idxPSCount = None, idxMaxPowerPerDevice = Some 3, idxTypicalPower = None,
       idxTotalMaxPower = None, idxConnType = None, idxPSURating = None \<rparr>"

definition exampleDevice :: "string \<Rightarrow> string \<Rightarrow> string \<Rightarrow> real \<Rightarrow> Device" where
  "exampleDevice ident nm rm p =
     \<lparr> idStr = ident, name = nm, room = rm, psuCount = 1, typicalPower = Fin (p * (6 / 10)),
       powerRatingPerDevice = Fin p, connectionType = ''C13'', uHeight = 1,
       uPosition = None, psuConnections = [] \<rparr>"

text \<open>The keyword lists of the column resolution in lower case, for evaluation.\<close>

definition resolveLowered :: "string list \<Rightarrow> Columns" where
  "resolveLowered hs =
     \<lparr> idxRoom = findIndex (\<lambda>h. some (includesStr h) [''room'', ''location'', ''rack name'']) hs,
       idxDevice = findIndex (\<lambda>h. some (includesStr h) [''device'', ''model'', ''equipment'']) hs,
       idxRackU = findIndex (\<lambda>h. some (includesStr h)
         [''rack size'', ''size (u)'', ''u height'', ''height'']) hs,
       idxQty = findIndex (\<lambda>h. some (includesStr h)
         [''total no. of device'', ''quantity'', ''qty'', ''count'', ''no. of devices'']) hs,
       idxPSCount = findIndex (\<lambda>h. some (includesStr h)
         [''total no. of ps'', ''psu count'', ''power supplies'']) hs,
       idxMaxPowerPerDevice = findIndex (\<lambda>h. some (includesStr h)
         [''max power (watt)'', ''max power'', ''power (w)'']) hs,
       idxTypicalPower = findIndex (\<lambda>h. some (includesStr h) [''typical power'', ''typical load'']) hs,
       idxTotalMaxPower = findIndex (\<lambda>h. some (includesStr h)
         [''total max power consumption'', ''total power'']) hs,
       idxConnType = findIndex (\<lambda>h. some (includesStr h)
         [''connection type'', ''plug type'', ''socket'']) hs,
       idxPSURating = findIndex (\<lambda>h. some (includesStr h)
         [''psu rating'', ''psu w'', ''power supply rating'']) hs \<rparr>"

section \<open>The structure of the import\<close>

subsection \<open>The row loop builds the map from the records in order\<close>

lemma pushReplicas_foldl:
  "pushReplicas cols rm i row m = foldl pushDevice m (rowRecords cols (i, row, rm))"
  by (simp add: pushReplicas_def rowRecords_def foldl_map)

lemma rowLoop_foldl:
  "rowLoop headers cols m lastRoom rows =
     foldl pushDevice m (concat (map (rowRecords cols) (processedRows headers cols lastRoom rows)))"
proof (induction rows arbitrary: m lastRoom)
  case Nil
  show ?case by simp
next
  case (Cons r rows)
  obtain i line where r: "r = (i, line)" by (cases r)
  show ?case
    by (simp add: r Let_def Cons.IH pushReplicas_foldl split_beta)
qed

lemma parseCSV_imported:
  "parseCSV csvText = map layoutRoom (foldl pushDevice [] (importedRecords csvText))"
  by (simp add: parseCSV_def Let_def importedRecords_def importedRows_def columnsOf_def
      rowLoop_foldl)

subsection \<open>The map groups the records by room, rooms in first-seen order\<close>

lemma set_firstSeen: "set (firstSeen xs) = set xs"
  by (induction xs) auto

lemma distinct_firstSeen: "distinct (firstSeen xs)"
  by (induction xs) (auto simp: set_firstSeen)

lemma firstSeen_snoc:
  "firstSeen (xs @ [x]) = (if x \<in> set xs then firstSeen xs else firstSeen xs @ [x])"
  by (induction xs) auto

lemma pushDevice_keyed:
  "distinct ks \<Longrightarrow>
   pushDevice (map (\<lambda>k. (k, f k)) ks) d =
     (if room d \<in> set ks then map (\<lambda>k. (k, if k = room d then f k @ [d] else f k)) ks
      else map (\<lambda>k. (k, f k)) ks @ [(room d, [d])])"
  by (induction ks) auto

lemma filter_other_room:
  "room d \<notin> set (map room ds) \<Longrightarrow> filter (\<lambda>e. room e = room d) ds = []"
  by (induction ds) auto

lemma pushDevice_groupsOf: "pushDevice (groupsOf ds) d = groupsOf (ds @ [d])"
proof (cases "room d \<in> set (map room ds)")
  case True
  then show ?thesis
    by (simp add: groupsOf_def pushDevice_keyed distinct_firstSeen set_firstSeen firstSeen_snoc)
next
  case False
  then have "filter (\<lambda>e. room e = room d) ds = []"
    by (rule filter_other_room)
  with False show ?thesis
    by (auto simp: groupsOf_def pushDevice_keyed distinct_firstSeen set_firstSeen firstSeen_snoc)
qed

lemma foldl_pushDevice_groupsOf: "foldl pushDevice (groupsOf ds) es = groupsOf (ds @ es)"
  by (induction es arbitrary: ds) (simp_all add: pushDevice_groupsOf)

lemma parseCSV_groups: "parseCSV csvText = map layoutRoom (groupsOf (importedRecords csvText))"
proof -
  have "groupsOf [] = []" by (simp add: groupsOf_def)
  then have "foldl pushDevice [] es = groupsOf es" for es
    using foldl_pushDevice_groupsOf [of "[]" es] by simp
  then show ?thesis by (simp add: parseCSV_imported)
qed

lemma roomIds_parseCSV:
  "map roomId (parseCSV csvText) = firstSeen (map room (importedRecords csvText))"
  by (simp add: parseCSV_groups groupsOf_def layoutRoom_def Let_def comp_def)

lemma group_devices:
  "g \<in> set (parseCSV csvText) \<Longrightarrow>
     devices g = stackDevices 48 (filter (\<lambda>d. room d = roomId g) (importedRecords csvText))"
  by (auto simp: parseCSV_groups groupsOf_def layoutRoom_def Let_def)

lemma group_totalPower: "g \<in> set (parseCSV csvText) \<Longrightarrow> totalPower g = sumPower (devices g)"
  by (auto simp: parseCSV_groups layoutRoom_def Let_def)

subsection \<open>The allocator changes the position and the connections only\<close>

lemma unplaced_placeDevice: "unplaced (fst (placeDevice c d)) = unplaced d"
  by (simp add: placeDevice_def unplaced_def)

lemma map_unplaced_stackDevices: "map unplaced (stackDevices c ds) = map unplaced ds"
  by (induction ds arbitrary: c) (simp_all add: unplaced_placeDevice)

lemma unplaced_makeDevice: "unplaced (makeDevice cols rm i row k) = makeDevice cols rm i row k"
  by (simp add: unplaced_def makeDevice_def)

lemma unplaced_rowRecords: "map unplaced (rowRecords cols r) = rowRecords cols r"
  by (simp add: rowRecords_def comp_def unplaced_makeDevice)

lemma unplaced_imported: "map unplaced (importedRecords csvText) = importedRecords csvText"
  by (simp add: importedRecords_def map_concat comp_def unplaced_rowRecords)

lemma unplaced_fields:
  "idStr (unplaced d) = idStr d" "name (unplaced d) = name d" "room (unplaced d) = room d"
  "psuCount (unplaced d) = psuCount d" "typicalPower (unplaced d) = typicalPower d"
  "powerRatingPerDevice (unplaced d) = powerRatingPerDevice d"
  "connectionType (unplaced d) = connectionType d" "uHeight (unplaced d) = uHeight d"
  by (simp_all add: unplaced_def)

lemma filter_unplaced:
  "filter (\<lambda>d. room d = k) (map unplaced ds) = map unplaced (filter (\<lambda>d. room d = k) ds)"
  by (induction ds) (simp_all add: unplaced_fields)

lemma group_unplaced:
  assumes "g \<in> set (parseCSV csvText)"
  shows "map unplaced (devices g) = filter (\<lambda>d. room d = roomId g) (importedRecords csvText)"
proof -
  have "map unplaced (devices g)
      = map unplaced (filter (\<lambda>d. room d = roomId g) (importedRecords csvText))"
    using assms by (simp add: group_devices map_unplaced_stackDevices)
  also have "\<dots> = filter (\<lambda>d. room d = roomId g) (map unplaced (importedRecords csvText))"
    by (simp add: filter_unplaced)
  finally show ?thesis by (simp add: unplaced_imported)
qed

lemma output_device_imported:
  assumes "g \<in> set (parseCSV csvText)" and "d \<in> set (devices g)"
  shows "unplaced d \<in> set (importedRecords csvText) \<and> room d = roomId g"
proof -
  from assms(2) have "unplaced d \<in> set (map unplaced (devices g))" by simp
  then have "unplaced d \<in> set (filter (\<lambda>d. room d = roomId g) (importedRecords csvText))"
    using assms(1) by (simp add: group_unplaced)
  then show ?thesis by (simp add: unplaced_fields)
qed

lemma imported_record_row:
  "e \<in> set (importedRecords csvText) \<Longrightarrow>
     \<exists>r \<in> set (importedRows csvText). e \<in> set (rowRecords (columnsOf csvText) r)"
  by (auto simp: importedRecords_def)

lemma output_device_row:
  assumes "g \<in> set (parseCSV csvText)" and "d \<in> set (devices g)"
  shows "\<exists>r \<in> set (importedRows csvText). unplaced d \<in> set (rowRecords (columnsOf csvText) r)"
  using output_device_imported [OF assms] imported_record_row by blast

subsection \<open>Evaluating the worked input\<close>

lemma findIndex_map: "findIndex P (map f xs) = findIndex (\<lambda>x. P (f x)) xs"
  by (induction xs) simp_all

lemma some_map: "some P (map f xs) = some (\<lambda>x. P (f x)) xs"
  by (induction xs) simp_all

lemma getColIndex_lowered:
  "getColIndex headers keywords =
     findIndex (\<lambda>h. some (includesStr h) (map toLowerCase keywords)) (map toLowerCase headers)"
  by (simp add: getColIndex_def findIndex_map some_map)

lemma lower_room:
  "map toLowerCase [''Room'', ''Location'', ''Rack Name''] = [''room'', ''location'', ''rack name'']"
  by code_simp

lemma lower_device:
  "map toLowerCase [''Device'', ''Model'', ''Equipment''] = [''device'', ''model'', ''equipment'']"
  by code_simp

lemma lower_rackU:
  "map toLowerCase [''Rack Size'', ''Size (U)'', ''U Height'', ''Height'']
     = [''rack size'', ''size (u)'', ''u height'', ''height'']"
  by code_simp

lemma lower_qty:
  "map toLowerCase [''Total No. of Device'', ''Quantity'', ''Qty'', ''Count'', ''No. of Devices'']
     = [''total no. of device'', ''quantity'', ''qty'', ''count'', ''no. of devices'']"
  by code_simp

lemma lower_psCount:
  "map toLowerCase [''Total No. of PS'', ''PSU Count'', ''Power Supplies'']
     = [''total no. of ps'', ''psu count'', ''power supplies'']"
  by code_simp

lemma lower_maxPower:
  "map toLowerCase [''Max Power (Watt)'', ''Max Power'', ''Power (W)'']
     = [''max power (watt)'', ''max power'', ''power (w)'']"
  by code_simp

lemma lower_typical:
  "map toLowerCase [''Typical Power'', ''Typical Load''] = [''typical power'', ''typical load'']"
  by code_simp

lemma lower_total:
  "map toLowerCase [''Total Max Power Consumption'', ''Total Power'']
     = [''total max power consumption'', ''total power'']"
  by code_simp

lemma lower_connType:
  "map toLowerCase [''Connection Type'', ''Plug Type'', ''Socket'']
     = [''connection type'', ''plug type'', ''socket'']"
  by code_simp

lemma lower_rating:
  "map toLowerCase [''PSU Rating'', ''PSU W'', ''Power Supply Rating'']
     = [''psu rating'', ''psu w'', ''power supply rating'']"
  by code_simp

lemma resolveColumns_lowered: "resolveColumns headers = resolveLowered (map toLowerCase headers)"
  unfolding resolveColumns_def resolveLowered_def getColIndex_lowered
    lower_room lower_device lower_rackU lower_qty lower_psCount lower_maxPower lower_typical
    lower_total lower_connType lower_rating ..

lemma example_lines:
  "textLines exampleCsv
     = [''Room,Device,Qty,Max Power'', ''A,srv,2,500'', '',sw,1,100'', ''B,ups,1,x'']"
  by code_simp

lemma example_headers:
  "headersOf (textLines exampleCsv) = [''Room'', ''Device'', ''Qty'', ''Max Power'']"
  unfolding example_lines by code_simp

lemma example_columns: "columnsOf exampleCsv = exampleColumns"
  unfolding columnsOf_def example_headers resolveColumns_lowered by code_simp

lemma example_rows:
  "importedRows exampleCsv =
     [(1, [''A'', ''srv'', ''2'', ''500''], ''A''), (2, ['''', ''sw'', ''1'', ''100''], ''A''),
      (3, [''B'', ''ups'', ''1'', ''x''], ''B'')]"
  unfolding importedRows_def example_columns example_headers unfolding example_lines
  by code_simp

lemma example_records:
  "importedRecords exampleCsv =
     [exampleDevice ''A-srv-1-0'' ''srv'' ''A'' 500, exampleDevice ''A-srv-1-1'' ''srv'' ''A'' 500,
      exampleDevice ''A-sw-2-0'' ''sw'' ''A'' 100, exampleDevice ''B-ups-3-0'' ''ups'' ''B'' 0]"
  unfolding importedRecords_def example_columns example_rows by code_simp

lemma example_result:
  "parseCSV exampleCsv =
     [\<lparr> roomId = ''A'',
         devices =
           [(exampleDevice ''A-srv-1-0'' ''srv'' ''A'' 500)
              \<lparr>uPosition := Some 48, psuConnections := [(0, None)]\<rparr>,
            (exampleDevice ''A-srv-1-1'' ''srv'' ''A'' 500)
              \<lparr>uPosition := Some 47, psuConnections := [(0, None)]\<rparr>,
            (exampleDevice ''A-sw-2-0'' ''sw'' ''A'' 100)
              \<lparr>uPosition := Some 46, psuConnections := [(0, None)]\<rparr>],
         totalPower = Fin 1100 \<rparr>,
      \<lparr> roomId = ''B'',
         devices =
           [(exampleDevice ''B-ups-3-0'' ''ups'' ''B'' 0)
              \<lparr>uPosition := Some 48, psuConnections := [(0, None)]\<rparr>],
         totalPower = Fin 0 \<rparr>]"
  unfolding parseCSV_imported example_records by code_simp

section \<open>The rack allocator\<close>

lemma cursorAfter_Nil: "cursorAfter c [] = c"
  by (simp add: cursorAfter_def)

lemma cursorAfter_Cons: "cursorAfter c (d # ds) = cursorAfter (snd (placeDevice c d)) ds"
  by (simp add: cursorAfter_def)

lemma cursorAfter_snoc: "cursorAfter c (ds @ [d]) = snd (placeDevice (cursorAfter c ds) d)"
  by (simp add: cursorAfter_def)

lemma length_stackDevices: "length (stackDevices c ds) = length ds"
  by (induction ds arbitrary: c) simp_all

lemma stackDevices_nth:
  "j < length ds \<Longrightarrow>
     stackDevices c ds ! j = fst (placeDevice (cursorAfter c (take j ds)) (ds ! j))"
proof (induction ds arbitrary: c j)
  case Nil
  then show ?case by simp
next
  case (Cons d ds)
  show ?case
  proof (cases j)
    case 0
    then show ?thesis by (simp add: cursorAfter_Nil)
  next
    case (Suc n)
    with Cons show ?thesis by (simp add: cursorAfter_Cons)
  qed
qed

lemma placeDevice_uPosition:
  "uPosition (fst (placeDevice c d)) = (if c - uHeight d + 1 \<ge> 1 then Some c else None)"
  by (simp add: placeDevice_def)

lemma placeDevice_cursor:
  "snd (placeDevice c d) = (if c - uHeight d + 1 \<ge> 1 then c - uHeight d else c)"
  by (simp add: placeDevice_def)

lemma placeDevice_uHeight: "uHeight (fst (placeDevice c d)) = uHeight d"
  by (simp add: placeDevice_def)

lemma cursorAfter_stacked:
  "cursorAfter c (take j (stackDevices c' ds)) = cursorAfter c (take j ds)"
proof (induction ds arbitrary: c c' j)
  case Nil
  then show ?case by simp
next
  case (Cons d ds)
  show ?case
  proof (cases j)
    case 0
    then show ?thesis by simp
  next
    case (Suc n)
    then show ?thesis
      by (simp add: cursorAfter_Cons Cons.IH placeDevice_uHeight placeDevice_cursor [of c])
  qed
qed

lemma take_Suc_snoc: "j < length ds \<Longrightarrow> take (Suc j) ds = take j ds @ [ds ! j]"
  by (simp add: take_Suc_conv_app_nth)

lemma parseCSV_devices:
  "g \<in> set (parseCSV t) \<Longrightarrow> \<exists>ds. devices g = stackDevices 48 ds"
  by (auto simp: parseCSV_def Let_def layoutRoom_def split: if_splits)

text \<open>
  Claim C2. The allocator walks a room's devices in input order with a cursor that starts
  at the capacity. The device at place \<open>j\<close> gets \<open>uPosition = cursor\<close> exactly when
  \<open>cursor - uHeight + 1 \<ge> 1\<close>, and then the cursor drops by its height; otherwise its
  position stays unset and the cursor stays where it was. \<open>parseCSV\<close> runs this from 48 in
  every room. From 6, heights 2, 1, 3 get positions 6, 4, 3; and from 6, heights 4, 3, 2
  get 6, none, 2: the device after the one that did not fit is still placed.
\<close>

theorem allocator_top_down:
  "(\<forall>j < length ds.
      uPosition (stackDevices c ds ! j) =
        (if cursorAfter c (take j ds) - uHeight (ds ! j) + 1 \<ge> 1
         then Some (cursorAfter c (take j ds)) else None) \<and>
      cursorAfter c (take (Suc j) ds) =
        (if cursorAfter c (take j ds) - uHeight (ds ! j) + 1 \<ge> 1
         then cursorAfter c (take j ds) - uHeight (ds ! j) else cursorAfter c (take j ds)))
   \<and> cursorAfter c [] = c
   \<and> length (stackDevices c ds) = length ds
   \<and> (\<forall>g \<in> set (parseCSV t). \<forall>j < length (devices g).
        uPosition (devices g ! j) =
          (if cursorAfter 48 (take j (devices g)) - uHeight (devices g ! j) + 1 \<ge> 1
           then Some (cursorAfter 48 (take j (devices g))) else None))
   \<and> map uPosition (stackDevices 6 (map (\<lambda>h. d\<lparr>uHeight := h\<rparr>) [2, 1, 3]))
       = [Some 6, Some 4, Some 3]
   \<and> map uPosition (stackDevices 6 (map (\<lambda>h. d\<lparr>uHeight := h\<rparr>) [4, 3, 2]))
       = [Some 6, None, Some 2]"
proof -
  have a: "\<forall>j < length ds.
      uPosition (stackDevices c ds ! j) =
        (if cursorAfter c (take j ds) - uHeight (ds ! j) + 1 \<ge> 1
         then Some (cursorAfter c (take j ds)) else None) \<and>
      cursorAfter c (take (Suc j) ds) =
        (if cursorAfter c (take j ds) - uHeight (ds ! j) + 1 \<ge> 1
         then cursorAfter c (take j ds) - uHeight (ds ! j) else cursorAfter c (take j ds))"
    by (simp add: stackDevices_nth placeDevice_uPosition take_Suc_snoc cursorAfter_snoc
        placeDevice_cursor)
  have b: "\<forall>g \<in> set (parseCSV t). \<forall>j < length (devices g).
        uPosition (devices g ! j) =
          (if cursorAfter 48 (take j (devices g)) - uHeight (devices g ! j) + 1 \<ge> 1
           then Some (cursorAfter 48 (take j (devices g))) else None)"
  proof (intro ballI allI impI)
    fix g j
    assume g: "g \<in> set (parseCSV t)" and j: "j < length (devices g)"
    from g obtain es where es: "devices g = stackDevices 48 es"
      using parseCSV_devices by blast
    from j es have j': "j < length es" by (simp add: length_stackDevices)
    have h: "uHeight (devices g ! j) = uHeight (es ! j)"
      using j' by (simp add: es stackDevices_nth placeDevice_uHeight)
    show "uPosition (devices g ! j) =
          (if cursorAfter 48 (take j (devices g)) - uHeight (devices g ! j) + 1 \<ge> 1
           then Some (cursorAfter 48 (take j (devices g))) else None)"
      unfolding h unfolding es cursorAfter_stacked
      using j' by (simp add: stackDevices_nth placeDevice_uPosition)
  qed
  have e1: "map uPosition (stackDevices 6 (map (\<lambda>h. d\<lparr>uHeight := h\<rparr>) [2, 1, 3]))
      = [Some 6, Some 4, Some 3]"
    by (simp add: placeDevice_def)
  have e2: "map uPosition (stackDevices 6 (map (\<lambda>h. d\<lparr>uHeight := h\<rparr>) [4, 3, 2]))
      = [Some 6, None, Some 2]"
    by (simp add: placeDevice_def)
  show ?thesis
    using a b e1 e2 by (simp only: cursorAfter_Nil length_stackDevices simp_thms)
qed

theorem allocator_top_down_witness:
  "(1::nat) < length [exampleDevice ''a'' ''x'' ''A'' 1, exampleDevice ''b'' ''x'' ''A'' 1]
   \<and> uPosition (stackDevices 48 [exampleDevice ''a'' ''x'' ''A'' 1, exampleDevice ''b'' ''x'' ''A'' 1] ! 1)
       = Some 47
   \<and> parseCSV exampleCsv ! 0 \<in> set (parseCSV exampleCsv)
   \<and> 2 < length (devices (parseCSV exampleCsv ! 0))
   \<and> uPosition (devices (parseCSV exampleCsv ! 0) ! 2) = Some 46"
proof -
  let ?ds = "[exampleDevice ''a'' ''x'' ''A'' 1, exampleDevice ''b'' ''x'' ''A'' 1]"
  let ?g = "parseCSV exampleCsv ! 0"
  note inst = allocator_top_down [of ?ds 48 exampleCsv "exampleDevice ''a'' ''x'' ''A'' 1"]
  have len: "(1::nat) < length ?ds" by simp
  have g: "?g \<in> set (parseCSV exampleCsv)" by (simp add: example_result)
  have j: "2 < length (devices ?g)" by (simp add: example_result)
  from inst len have "uPosition (stackDevices 48 ?ds ! 1) =
      (if cursorAfter 48 (take 1 ?ds) - uHeight (?ds ! 1) + 1 \<ge> 1
       then Some (cursorAfter 48 (take 1 ?ds)) else None)"
    by blast
  then have p1: "uPosition (stackDevices 48 ?ds ! 1) = Some 47"
    by (simp add: cursorAfter_def placeDevice_def exampleDevice_def)
  from inst g j have "uPosition (devices ?g ! 2) =
      (if cursorAfter 48 (take 2 (devices ?g)) - uHeight (devices ?g ! 2) + 1 \<ge> 1
       then Some (cursorAfter 48 (take 2 (devices ?g))) else None)"
    by blast
  then have p2: "uPosition (devices ?g ! 2) = Some 46"
    by (simp add: example_result cursorAfter_def placeDevice_def exampleDevice_def)
  from len p1 g j p2 show ?thesis by blast
qed

section \<open>Splitting the text into lines and fields\<close>

lemma splitOn_not_Nil: "splitOn c s \<noteq> []"
  by (induction s) (auto split: list.splits)

lemma length_splitOn: "length (splitOn c s) = Suc (length (filter (\<lambda>x. x = c) s))"
proof (induction s)
  case Nil
  show ?case by simp
next
  case (Cons x xs)
  then show ?case
    using splitOn_not_Nil [of c xs] by (cases "splitOn c xs") auto
qed

lemma length_textLines_less_2:
  "length (textLines csvText) < 2 \<longleftrightarrow> newline \<notin> set (trim csvText)"
proof -
  have "length (filter (\<lambda>x. x = newline) (trim csvText)) = 0 \<longleftrightarrow> newline \<notin> set (trim csvText)"
    by (auto simp: filter_empty_conv)
  then show ?thesis
    by (simp add: textLines_def length_splitOn)
qed

lemma trim_all_space: "\<forall>c \<in> set s. isSpace c \<Longrightarrow> trim s = []"
proof -
  assume "\<forall>c \<in> set s. isSpace c"
  then have d: "dropWhile isSpace s = []" by (simp add: dropWhile_eq_Nil_conv)
  show "trim s = []" unfolding trim_def d by simp
qed

text \<open>
  Claim C8. A text with fewer than two lines, that is, one whose trimmed form holds no line
  break (the empty text, white space alone, a header row alone, also when a line break
  follows it), gives the empty list of room layouts.
\<close>

theorem fewer_than_two_lines_empty:
  "(length (textLines csvText) < 2 \<longleftrightarrow> newline \<notin> set (trim csvText))
   \<and> (newline \<notin> set (trim csvText) \<longrightarrow> parseCSV csvText = [])
   \<and> ((\<forall>c \<in> set csvText. isSpace c) \<longrightarrow> parseCSV csvText = [])"
proof -
  have a: "newline \<notin> set (trim csvText) \<longrightarrow> parseCSV csvText = []"
    using length_textLines_less_2 [of csvText] by (simp add: parseCSV_def Let_def)
  have b: "(\<forall>c \<in> set csvText. isSpace c) \<longrightarrow> parseCSV csvText = []"
  proof
    assume "\<forall>c \<in> set csvText. isSpace c"
    then have "trim csvText = []" by (rule trim_all_space)
    with a show "parseCSV csvText = []" by simp
  qed
  from a b length_textLines_less_2 [of csvText] show ?thesis by blast
qed

theorem fewer_than_two_lines_empty_witness:
  "newline \<notin> set (trim (''Room,Device'' @ [newline]))
   \<and> parseCSV (''Room,Device'' @ [newline]) = []
   \<and> list_all isSpace ''  ''
   \<and> parseCSV ''  '' = []
   \<and> parseCSV '''' = []"
proof -
  have h1: "newline \<notin> set (trim (''Room,Device'' @ [newline]))"
    by code_simp
  have h2: "\<forall>c \<in> set ''  ''. isSpace c"
    by (simp add: isSpace_def)
  have h3: "\<forall>c \<in> set ''''. isSpace c"
    by simp
  from h1 fewer_than_two_lines_empty [of "''Room,Device'' @ [newline]"]
  have r1: "parseCSV (''Room,Device'' @ [newline]) = []" by blast
  from h2 fewer_than_two_lines_empty [of "''  ''"]
  have r2: "parseCSV ''  '' = []" by blast
  from h3 fewer_than_two_lines_empty [of "''''"]
  have r3: "parseCSV '''' = []" by blast
  from h2 have h2': "list_all isSpace ''  ''" by (simp add: list_all_iff)
  from h1 h2' r1 r2 r3 show ?thesis by blast
qed

subsection \<open>Fields of a line\<close>

lemma length_parseLineLoop: "length result < length (parseLineLoop result cl q s)"
proof (induction s arbitrary: result cl q)
  case Nil
  show ?case by simp
next
  case (Cons c cs)
  have "length (result @ [trim cl]) < length (parseLineLoop (result @ [trim cl]) [] q' cs)" for q'
    by (rule Cons.IH)
  then have "length result < length (parseLineLoop (result @ [trim cl]) [] q' cs)" for q'
    by (simp add: Suc_lessD)
  with Cons.IH show ?case by simp
qed

lemma length_parseLine: "1 \<le> length (parseLine s)"
  using length_parseLineLoop [of "[]" "[]" False s] by (simp add: parseLine_def Suc_le_eq)

lemma isSpace_plain: "isSpace c \<Longrightarrow> c \<noteq> dquote \<and> c \<noteq> comma"
  by (auto simp: isSpace_def dquote_def comma_def)

lemma parseLineLoop_all_space:
  "\<forall>c \<in> set s. isSpace c \<Longrightarrow> parseLineLoop result cl q s = result @ [trim (cl @ s)]"
proof (induction s arbitrary: cl)
  case Nil
  show ?case by simp
next
  case (Cons c cs)
  from Cons.prems have "c \<noteq> dquote \<and> c \<noteq> comma" by (simp add: isSpace_plain)
  moreover from Cons.prems have "parseLineLoop result (cl @ [c]) q cs = result @ [trim ((cl @ [c]) @ cs)]"
    by (intro Cons.IH) simp
  ultimately show ?case by simp
qed

lemma parseLine_blank: "\<forall>c \<in> set s. isSpace c \<Longrightarrow> parseLine s = [[]]"
  by (simp add: parseLine_def parseLineLoop_all_space trim_all_space)

lemma skipRow_iff:
  "1 \<le> length row \<Longrightarrow> skipRow headers row \<longleftrightarrow> length row = 1 \<and> 3 \<le> length headers"
  by (auto simp: skipRow_def)

lemma cell_blank: "cell [[]] ix = (if ix = 0 then Some [] else None)"
  by (simp add: cell_def)

lemma parseInt_blank: "parseInt (cell [[]] ix) = None"
  by (simp add: cell_blank parseInt_def trimStart_def takeSign_def)

lemma positiveIntOr_blank: "positiveIntOr idx [[]] dflt = dflt"
  by (simp add: positiveIntOr_def parseInt_blank split: option.splits)

lemma textOr_blank: "textOr idx [[]] dflt = dflt"
  by (simp add: textOr_def cell_blank stripQuotes_def split: option.splits)

lemma roomOf_blank:
  "roomOf cols lastRoom [[]] =
     ((case idxRoom cols of None \<Rightarrow> defaultRoom | Some ix \<Rightarrow> lastRoom), lastRoom)"
  by (simp add: roomOf_def cell_blank split: option.splits)

lemma pushReplicas_blank:
  "pushReplicas cols rm i [[]] m = pushDevice m (makeDevice cols rm i [[]] 0)"
  by (simp add: pushReplicas_def qtyOf_def positiveIntOr_blank)

text \<open>
  Claim C10. A data line always splits into at least one field, so the skip test holds
  exactly when the line gives one field and the header has three or more. With a header of
  at most two fields a blank line (no character, or white space only) is processed: the
  loop appends one record, named "Unknown Device", in the room \<^verbatim>\<open>lastRoom\<close> holds (the
  default label when there is no room column), and \<^verbatim>\<open>lastRoom\<close> is unchanged.
\<close>

theorem blank_row_processed:
  "1 \<le> length (parseLine line)
   \<and> (skipRow headers (parseLine line) \<longleftrightarrow> length (parseLine line) = 1 \<and> 3 \<le> length headers)
   \<and> ((\<forall>c \<in> set line. isSpace c) \<and> length headers \<le> 2 \<longrightarrow>
        rowLoop headers cols m lastRoom ((i, line) # rest) =
          rowLoop headers cols
            (pushDevice m
              (makeDevice cols (case idxRoom cols of None \<Rightarrow> defaultRoom | Some ix \<Rightarrow> lastRoom)
                 i [[]] 0))
            lastRoom rest
        \<and> name (makeDevice cols (case idxRoom cols of None \<Rightarrow> defaultRoom | Some ix \<Rightarrow> lastRoom)
                  i [[]] 0) = ''Unknown Device''
        \<and> room (makeDevice cols (case idxRoom cols of None \<Rightarrow> defaultRoom | Some ix \<Rightarrow> lastRoom)
                  i [[]] 0) = (case idxRoom cols of None \<Rightarrow> defaultRoom | Some ix \<Rightarrow> lastRoom))"
proof -
  have a: "1 \<le> length (parseLine line)" by (rule length_parseLine)
  have b: "skipRow headers (parseLine line) \<longleftrightarrow> length (parseLine line) = 1 \<and> 3 \<le> length headers"
    using a by (rule skipRow_iff)
  have c: "(\<forall>c \<in> set line. isSpace c) \<and> length headers \<le> 2 \<longrightarrow>
        rowLoop headers cols m lastRoom ((i, line) # rest) =
          rowLoop headers cols
            (pushDevice m
              (makeDevice cols (case idxRoom cols of None \<Rightarrow> defaultRoom | Some ix \<Rightarrow> lastRoom)
                 i [[]] 0))
            lastRoom rest"
  proof
    assume h: "(\<forall>c \<in> set line. isSpace c) \<and> length headers \<le> 2"
    then have row: "parseLine line = [[]]" by (simp add: parseLine_blank)
    from h have ns: "\<not> skipRow headers [[]]" by (simp add: skipRow_def)
    show "rowLoop headers cols m lastRoom ((i, line) # rest) =
          rowLoop headers cols
            (pushDevice m
              (makeDevice cols (case idxRoom cols of None \<Rightarrow> defaultRoom | Some ix \<Rightarrow> lastRoom)
                 i [[]] 0))
            lastRoom rest"
      by (simp add: row ns roomOf_blank pushReplicas_blank)
  qed
  have d: "name (makeDevice cols rm i [[]] 0) = ''Unknown Device''" for rm
    by (simp add: makeDevice_def deviceNameOf_def textOr_blank)
  have e: "room (makeDevice cols rm i [[]] 0) = rm" for rm
    by (simp add: makeDevice_def)
  from a b c d e show ?thesis by blast
qed

theorem blank_row_processed_witness:
  "list_all isSpace '' '' \<and> length [''Room'', ''Device''] \<le> 2
   \<and> rowLoop [''Room'', ''Device''] exampleColumns [] ''A'' [(2, '' '')]
       = [(''A'', [makeDevice exampleColumns ''A'' 2 [[]] 0])]
   \<and> name (makeDevice exampleColumns ''A'' 2 [[]] 0) = ''Unknown Device''
   \<and> room (makeDevice exampleColumns ''A'' 2 [[]] 0) = ''A''"
proof -
  have h: "(\<forall>c \<in> set '' ''. isSpace c) \<and> length [''Room'', ''Device''] \<le> 2"
    by (simp add: isSpace_def)
  have ix: "(case idxRoom exampleColumns of None \<Rightarrow> defaultRoom | Some ix \<Rightarrow> ''A'') = ''A''"
    by (simp add: exampleColumns_def)
  from h blank_row_processed [of "'' ''" "[''Room'', ''Device'']" exampleColumns "[]" "''A''" 2 "[]"]
  have "rowLoop [''Room'', ''Device''] exampleColumns [] ''A'' [(2, '' '')] =
          rowLoop [''Room'', ''Device''] exampleColumns
            (pushDevice [] (makeDevice exampleColumns ''A'' 2 [[]] 0)) ''A'' []
        \<and> name (makeDevice exampleColumns ''A'' 2 [[]] 0) = ''Unknown Device''
        \<and> room (makeDevice exampleColumns ''A'' 2 [[]] 0) = ''A''"
    unfolding ix by blast
  moreover from h have "list_all isSpace '' '' \<and> length [''Room'', ''Device''] \<le> 2"
    by (simp add: list_all_iff)
  ultimately show ?thesis by (simp add: makeDevice_def)
qed

section \<open>Power figures of a record\<close>

lemma floatAt_None: "floatAt None row = NaN"
  by (simp add: floatAt_def)

lemma floatAt_Some: "floatAt (Some ix) row = parseFloat (cell row ix)"
  by (simp add: floatAt_def)

lemma numPositive_not_NaN: "numPositive x \<Longrightarrow> x \<noteq> NaN"
  by (cases x) simp_all

lemma maxPowerOf_priority:
  "maxPowerOf cols row =
     (if numPositive (floatAt (idxMaxPowerPerDevice cols) row)
        then floatAt (idxMaxPowerPerDevice cols) row
      else if numPositive (floatAt (idxTotalMaxPower cols) row)
        then numDiv (floatAt (idxTotalMaxPower cols) row) (ofInt (qtyOf cols row))
      else if floatAt (idxPSURating cols) row \<noteq> NaN
        then numMul (floatAt (idxPSURating cols) row) (ofInt (psPerDeviceOf cols row))
      else Fin 0)"
  using numPositive_not_NaN [of "floatAt (idxMaxPowerPerDevice cols) row"]
    numPositive_not_NaN [of "floatAt (idxTotalMaxPower cols) row"]
  by (auto simp: maxPowerOf_def rawMax_def rawTotal_def rawRating_def)

lemma rowRecords_fields:
  assumes "e \<in> set (rowRecords cols r)"
  shows "powerRatingPerDevice e = maxPowerOf cols (fst (snd r))"
    and "typicalPower e = typicalPowerOf cols (fst (snd r))"
    and "name e = deviceNameOf cols (fst (snd r))"
    and "room e = snd (snd r)"
    and "psuCount e = psPerDeviceOf cols (fst (snd r))"
    and "connectionType e = connectionTypeOf cols (fst (snd r))"
    and "uHeight e = uHeightOf cols (fst (snd r))"
  using assms by (auto simp: rowRecords_def makeDevice_def)

lemma output_device_power:
  assumes "g \<in> set (parseCSV csvText)" and "d \<in> set (devices g)"
  shows "\<exists>r \<in> set (importedRows csvText).
           unplaced d \<in> set (rowRecords (columnsOf csvText) r)
           \<and> powerRatingPerDevice d = maxPowerOf (columnsOf csvText) (fst (snd r))
           \<and> typicalPower d = typicalPowerOf (columnsOf csvText) (fst (snd r))"
proof -
  from output_device_row [OF assms] obtain r
    where r: "r \<in> set (importedRows csvText)"
      and u: "unplaced d \<in> set (rowRecords (columnsOf csvText) r)"
    by blast
  from rowRecords_fields(1,2) [OF u]
  have "powerRatingPerDevice d = maxPowerOf (columnsOf csvText) (fst (snd r))"
    and "typicalPower d = typicalPowerOf (columnsOf csvText) (fst (snd r))"
    by (simp_all add: unplaced_fields)
  with r u show ?thesis by blast
qed

text \<open>
  Claim C3. The per-unit max power of a row follows a strict priority: the per-device-max
  cell when its column is present and it parses to a value above 0 (also when the total-max
  cell parses to a value above 0); else the total-max cell, when present and above 0,
  divided by the row's quantity; else the power-supply-rating cell, when present and
  numeric (0 included), times the per-unit power-supply count; else 0. An absent column
  reads as NaN, a present one as \<^verbatim>\<open>parseFloat\<close> of the cell; and every record of the output
  carries the figure of its row.
\<close>

theorem power_priority:
  "maxPowerOf cols row =
     (if numPositive (floatAt (idxMaxPowerPerDevice cols) row)
        then floatAt (idxMaxPowerPerDevice cols) row
      else if numPositive (floatAt (idxTotalMaxPower cols) row)
        then numDiv (floatAt (idxTotalMaxPower cols) row) (ofInt (qtyOf cols row))
      else if floatAt (idxPSURating cols) row \<noteq> NaN
        then numMul (floatAt (idxPSURating cols) row) (ofInt (psPerDeviceOf cols row))
      else Fin 0)
   \<and> floatAt None row = NaN
   \<and> floatAt (Some ix) row = parseFloat (cell row ix)
   \<and> (\<forall>g \<in> set (parseCSV csvText). \<forall>d \<in> set (devices g).
        \<exists>r \<in> set (importedRows csvText).
          unplaced d \<in> set (rowRecords (columnsOf csvText) r)
          \<and> powerRatingPerDevice d = maxPowerOf (columnsOf csvText) (fst (snd r)))"
proof -
  have "\<forall>g \<in> set (parseCSV csvText). \<forall>d \<in> set (devices g).
        \<exists>r \<in> set (importedRows csvText).
          unplaced d \<in> set (rowRecords (columnsOf csvText) r)
          \<and> powerRatingPerDevice d = maxPowerOf (columnsOf csvText) (fst (snd r))"
    using output_device_power by blast
  with maxPowerOf_priority [of cols row] floatAt_None [of row] floatAt_Some [of ix row]
  show ?thesis by blast
qed

theorem power_priority_witness:
  "parseCSV exampleCsv ! 0 \<in> set (parseCSV exampleCsv)
   \<and> devices (parseCSV exampleCsv ! 0) ! 0 \<in> set (devices (parseCSV exampleCsv ! 0))
   \<and> (\<exists>r \<in> set (importedRows exampleCsv).
         unplaced (devices (parseCSV exampleCsv ! 0) ! 0) \<in> set (rowRecords (columnsOf exampleCsv) r)
         \<and> powerRatingPerDevice (devices (parseCSV exampleCsv ! 0) ! 0)
             = maxPowerOf (columnsOf exampleCsv) (fst (snd r)))
   \<and> maxPowerOf exampleColumns [''A'', ''srv'', ''2'', ''500''] = Fin 500
   \<and> maxPowerOf bothPowerColumns [''100'', ''900'', ''3''] = Fin 100
   \<and> maxPowerOf bothPowerColumns [''0'', ''900'', ''3''] = Fin 300
   \<and> maxPowerOf negativeColumns [''0''] = Fin 0"
proof -
  let ?g = "parseCSV exampleCsv ! 0"
  note inst = power_priority [of exampleColumns "[''A'', ''srv'', ''2'', ''500'']" 3 exampleCsv]
  have g: "?g \<in> set (parseCSV exampleCsv)" by (simp add: example_result)
  have d: "devices ?g ! 0 \<in> set (devices ?g)" by (simp add: example_result)
  from inst g d have e: "\<exists>r \<in> set (importedRows exampleCsv).
         unplaced (devices ?g ! 0) \<in> set (rowRecords (columnsOf exampleCsv) r)
         \<and> powerRatingPerDevice (devices ?g ! 0) = maxPowerOf (columnsOf exampleCsv) (fst (snd r))"
    by blast
  have p: "floatAt (idxMaxPowerPerDevice exampleColumns) [''A'', ''srv'', ''2'', ''500''] = Fin 500"
    by code_simp
  from inst have m1: "maxPowerOf exampleColumns [''A'', ''srv'', ''2'', ''500''] = Fin 500"
    unfolding p by simp
  have p2: "floatAt (idxMaxPowerPerDevice bothPowerColumns) [''100'', ''900'', ''3''] = Fin 100"
    by code_simp
  from power_priority [of bothPowerColumns "[''100'', ''900'', ''3'']" 0 exampleCsv]
  have m2: "maxPowerOf bothPowerColumns [''100'', ''900'', ''3''] = Fin 100"
    unfolding p2 by simp
  have p3: "floatAt (idxMaxPowerPerDevice bothPowerColumns) [''0'', ''900'', ''3''] = Fin 0"
    "floatAt (idxTotalMaxPower bothPowerColumns) [''0'', ''900'', ''3''] = Fin 900"
    "qtyOf bothPowerColumns [''0'', ''900'', ''3''] = 3"
    by code_simp+
  from power_priority [of bothPowerColumns "[''0'', ''900'', ''3'']" 0 exampleCsv]
  have m3: "maxPowerOf bothPowerColumns [''0'', ''900'', ''3''] = Fin 300"
    unfolding p3 by (simp add: ofInt_def)
  have p4: "floatAt (idxMaxPowerPerDevice negativeColumns) [''0''] = NaN"
    "floatAt (idxTotalMaxPower negativeColumns) [''0''] = NaN"
    "floatAt (idxPSURating negativeColumns) [''0''] = Fin 0"
    "psPerDeviceOf negativeColumns [''0''] = 1"
    by code_simp+
  from power_priority [of negativeColumns "[''0'']" 0 exampleCsv]
  have m4: "maxPowerOf negativeColumns [''0''] = Fin 0"
    unfolding p4 by (simp add: ofInt_def)
  from g d e m1 m2 m3 m4 show ?thesis by blast
qed

subsection \<open>Signs\<close>

lemma positiveIntOr_positive: "0 < dflt \<Longrightarrow> 0 < positiveIntOr idx row dflt"
  by (simp add: positiveIntOr_def split: option.splits)

lemma qtyOf_positive: "0 < qtyOf cols row"
  by (simp add: qtyOf_def positiveIntOr_positive)

lemma psPerDeviceOf_positive: "0 < psPerDeviceOf cols row"
  by (simp add: psPerDeviceOf_def)

lemma numPositive_nonneg: "numPositive x \<Longrightarrow> numNonNegative x"
  by (cases x) simp_all

lemma numDiv_nonneg: "numPositive x \<Longrightarrow> 0 < q \<Longrightarrow> numNonNegative (numDiv x (ofInt q))"
  by (cases x) (simp_all add: ofInt_def)

lemma numMul_nonneg:
  "x \<noteq> NaN \<Longrightarrow> \<not> numNegative x \<Longrightarrow> 0 < p \<Longrightarrow> numNonNegative (numMul x (ofInt p))"
  by (cases x) (simp_all add: ofInt_def)

lemma numMul_fraction_nonneg: "numNonNegative x \<Longrightarrow> 0 < c \<Longrightarrow> numNonNegative (numMul x (Fin c))"
  by (cases x) simp_all

lemma not_negative_nonneg: "x \<noteq> NaN \<Longrightarrow> \<not> numNegative x \<Longrightarrow> numNonNegative x"
  by (cases x) simp_all

lemma maxPowerOf_raw:
  "maxPowerOf cols row =
     (if numPositive (rawMax cols row) then rawMax cols row
      else if numPositive (rawTotal cols row)
        then numDiv (rawTotal cols row) (ofInt (qtyOf cols row))
      else if rawRating cols row \<noteq> NaN
        then numMul (rawRating cols row) (ofInt (psPerDeviceOf cols row))
      else Fin 0)"
  using maxPowerOf_priority [of cols row] by (simp add: rawMax_def rawTotal_def rawRating_def)

lemma maxPowerOf_nonneg:
  assumes "numPositive (rawMax cols row) \<or> numPositive (rawTotal cols row)
           \<or> \<not> numNegative (rawRating cols row)"
  shows "numNonNegative (maxPowerOf cols row)"
proof (cases "numPositive (rawMax cols row)")
  case True
  then show ?thesis by (simp add: maxPowerOf_raw numPositive_nonneg)
next
  case noMax: False
  show ?thesis
  proof (cases "numPositive (rawTotal cols row)")
    case True
    with noMax show ?thesis by (simp add: maxPowerOf_raw numDiv_nonneg qtyOf_positive)
  next
    case False
    with noMax assms have "\<not> numNegative (rawRating cols row)" by blast
    with noMax False show ?thesis
      by (simp add: maxPowerOf_raw numMul_nonneg psPerDeviceOf_positive)
  qed
qed

lemma typicalPowerOf_nonneg:
  assumes "\<not> numNegative (floatAt (idxTypicalPower cols) row)"
    and "floatAt (idxTypicalPower cols) row = NaN \<longrightarrow> numNonNegative (maxPowerOf cols row)"
  shows "numNonNegative (typicalPowerOf cols row)"
  using assms by (auto simp: typicalPowerOf_def Let_def numMul_fraction_nonneg not_negative_nonneg)

lemma negative_columns: "columnsOf negativeCsv = negativeColumns"
proof -
  have "headersOf (textLines negativeCsv) = [''PSU Rating'']" by code_simp
  then show ?thesis
    unfolding columnsOf_def resolveColumns_lowered by code_simp
qed

lemma negative_records:
  "importedRecords negativeCsv =
     [\<lparr> idStr = ''Default-Room-Unknown-Device-1-0'', name = ''Unknown Device'',
        room = ''Default Room'', psuCount = 1, typicalPower = Fin (- 3),
        powerRatingPerDevice = Fin (- 5), connectionType = ''C13'', uHeight = 1,
        uPosition = None, psuConnections = [] \<rparr>]"
proof -
  have "importedRows negativeCsv = [(1, [''-5''], ''Default Room'')]"
    unfolding importedRows_def negative_columns by code_simp
  then show ?thesis
    unfolding importedRecords_def negative_columns by code_simp
qed

lemma negative_result:
  "parseCSV negativeCsv =
     [\<lparr> roomId = ''Default Room'',
         devices =
           [\<lparr> idStr = ''Default-Room-Unknown-Device-1-0'', name = ''Unknown Device'',
              room = ''Default Room'', psuCount = 1, typicalPower = Fin (- 3),
              powerRatingPerDevice = Fin (- 5), connectionType = ''C13'', uHeight = 1,
              uPosition = Some 48, psuConnections = [(0, None)] \<rparr>],
         totalPower = Fin (- 5) \<rparr>]"
  unfolding parseCSV_imported negative_records by code_simp

text \<open>
  Claim C4, as stated, fails: a power-supply rating of -5 with no other power column gives
  a record whose max power is -5 and whose typical power is -3.
\<close>

theorem power_nonneg_counterexample:
  "length (parseCSV negativeCsv) = 1
   \<and> length (devices (parseCSV negativeCsv ! 0)) = 1
   \<and> powerRatingPerDevice (devices (parseCSV negativeCsv ! 0) ! 0) = Fin (- 5)
   \<and> typicalPower (devices (parseCSV negativeCsv ! 0) ! 0) = Fin (- 3)
   \<and> \<not> numNonNegative (powerRatingPerDevice (devices (parseCSV negativeCsv ! 0) ! 0))
   \<and> \<not> numNonNegative (typicalPower (devices (parseCSV negativeCsv ! 0) ! 0))"
  by (simp add: negative_result)

lemma numAtLeast_positive: "numAtLeast minPositive x \<Longrightarrow> numPositive x"
  by (cases x) (simp_all add: minPositive_def less_le_trans [of 0 "1 / 2 ^ 1074"])

lemma signGuard_sign:
  "signGuard cols row \<Longrightarrow>
     numPositive (rawMax cols row) \<or> numPositive (rawTotal cols row)
     \<or> \<not> numNegative (rawRating cols row)"
  unfolding signGuard_def using numAtLeast_positive by blast

lemma zero_times_infinity: "numMul (Fin 0) PosInf = NaN \<and> \<not> numNonNegative NaN"
  by simp

text \<open>
  Claim C4, amended. For every record of the output, with the row it was built from: the
  max power is non-negative when the row's per-device-max or total-max cell parses to a
  positive double, or its rating cell is not negative and its power-supply total is below
  \<open>2 ^ 53\<close>; the typical power is non-negative when the typical-power cell is not
  negative and, where that cell is not numeric, the condition for the max power holds.
  (Left out: a negative rating that is used, which gives a negative max power; and a
  power-supply total so large that the implementation reads it as \<^verbatim>\<open>Infinity\<close>, where
  a rating of 0 gives 0 times \<^verbatim>\<open>Infinity\<close>, that is NaN, which is not non-negative.)
\<close>

theorem power_nonneg_guarded:
  "\<forall>g \<in> set (parseCSV csvText). \<forall>d \<in> set (devices g).
     \<exists>r \<in> set (importedRows csvText).
       unplaced d \<in> set (rowRecords (columnsOf csvText) r)
       \<and> (signGuard (columnsOf csvText) (fst (snd r))
          \<longrightarrow> numNonNegative (powerRatingPerDevice d))
       \<and> (\<not> numNegative (floatAt (idxTypicalPower (columnsOf csvText)) (fst (snd r)))
            \<and> (floatAt (idxTypicalPower (columnsOf csvText)) (fst (snd r)) = NaN
                 \<longrightarrow> signGuard (columnsOf csvText) (fst (snd r)))
          \<longrightarrow> numNonNegative (typicalPower d))"
proof (intro ballI)
  fix g d
  assume g: "g \<in> set (parseCSV csvText)" and d: "d \<in> set (devices g)"
  from output_device_power [OF g d] obtain r
    where r: "r \<in> set (importedRows csvText)"
      and u: "unplaced d \<in> set (rowRecords (columnsOf csvText) r)"
      and p: "powerRatingPerDevice d = maxPowerOf (columnsOf csvText) (fst (snd r))"
      and t: "typicalPower d = typicalPowerOf (columnsOf csvText) (fst (snd r))"
    by blast
  have m: "numNonNegative (maxPowerOf (columnsOf csvText) (fst (snd r)))"
    if "signGuard (columnsOf csvText) (fst (snd r))"
    using signGuard_sign [OF that] by (rule maxPowerOf_nonneg)
  have a: "signGuard (columnsOf csvText) (fst (snd r))
          \<longrightarrow> numNonNegative (powerRatingPerDevice d)"
    unfolding p using m by blast
  have b: "\<not> numNegative (floatAt (idxTypicalPower (columnsOf csvText)) (fst (snd r)))
            \<and> (floatAt (idxTypicalPower (columnsOf csvText)) (fst (snd r)) = NaN
                 \<longrightarrow> signGuard (columnsOf csvText) (fst (snd r)))
          \<longrightarrow> numNonNegative (typicalPower d)"
    unfolding t using m typicalPowerOf_nonneg [of "columnsOf csvText" "fst (snd r)"] by blast
  from r u a b show "\<exists>r \<in> set (importedRows csvText).
       unplaced d \<in> set (rowRecords (columnsOf csvText) r)
       \<and> (signGuard (columnsOf csvText) (fst (snd r))
          \<longrightarrow> numNonNegative (powerRatingPerDevice d))
       \<and> (\<not> numNegative (floatAt (idxTypicalPower (columnsOf csvText)) (fst (snd r)))
            \<and> (floatAt (idxTypicalPower (columnsOf csvText)) (fst (snd r)) = NaN
                 \<longrightarrow> signGuard (columnsOf csvText) (fst (snd r)))
          \<longrightarrow> numNonNegative (typicalPower d))"
    by blast
qed

theorem power_nonneg_guarded_witness:
  "parseCSV exampleCsv ! 0 \<in> set (parseCSV exampleCsv)
   \<and> devices (parseCSV exampleCsv ! 0) ! 2 \<in> set (devices (parseCSV exampleCsv ! 0))
   \<and> list_all (\<lambda>r. signGuard (columnsOf exampleCsv) (fst (snd r))) (importedRows exampleCsv)
   \<and> numNonNegative (powerRatingPerDevice (devices (parseCSV exampleCsv ! 0) ! 2))
   \<and> numNonNegative (typicalPower (devices (parseCSV exampleCsv ! 0) ! 2))"
proof -
  let ?g = "parseCSV exampleCsv ! 0"
  let ?d = "devices ?g ! 2"
  have g: "?g \<in> set (parseCSV exampleCsv)" by (simp add: example_result)
  have d: "?d \<in> set (devices ?g)" by (simp add: example_result)
  have rating: "\<not> numNegative (rawRating exampleColumns row)" for row
    by (simp add: exampleColumns_def rawRating_def floatAt_def)
  have total: "psCountTotalOf exampleColumns row = qtyOf exampleColumns row" for row
    by (simp add: psCountTotalOf_def positiveIntOr_def exampleColumns_def)
  have q1: "qtyOf exampleColumns [''A'', ''srv'', ''2'', ''500''] = 2" by code_simp
  have q2: "qtyOf exampleColumns ['''', ''sw'', ''1'', ''100''] = 1" by code_simp
  have q3: "qtyOf exampleColumns [''B'', ''ups'', ''1'', ''x''] = 1" by code_simp
  have guard: "list_all (\<lambda>r. signGuard (columnsOf exampleCsv) (fst (snd r))) (importedRows exampleCsv)"
    by (simp add: example_columns example_rows signGuard_def rating total q1 q2 q3)
  then have guard': "signGuard (columnsOf exampleCsv) (fst (snd r))"
    if "r \<in> set (importedRows exampleCsv)" for r
    using that by (simp add: list_all_iff)
  have typical: "floatAt (idxTypicalPower (columnsOf exampleCsv)) row = NaN" for row
    by (simp add: example_columns exampleColumns_def floatAt_def)
  from power_nonneg_guarded [of exampleCsv, rule_format, OF g d]
  have "numNonNegative (powerRatingPerDevice ?d) \<and> numNonNegative (typicalPower ?d)"
    using guard' by (auto simp: typical)
  with g d guard show ?thesis by blast
qed

section \<open>The total power of a room\<close>

lemma sumPower_foldl: "sumPower ds = foldl numAdd (Fin 0) (map powerRatingPerDevice ds)"
  by (simp add: sumPower_def foldl_map)

lemma power_stackDevices:
  "map powerRatingPerDevice (stackDevices c ds) = map powerRatingPerDevice ds"
proof -
  have "map powerRatingPerDevice (map unplaced xs) = map powerRatingPerDevice xs" for xs
    by (simp add: unplaced_fields)
  then show ?thesis
    by (metis map_unplaced_stackDevices)
qed

lemma totalPower_layoutRoom:
  "totalPower (layoutRoom (k, ds)) = foldl numAdd (Fin 0) (map powerRatingPerDevice ds)"
  by (simp add: layoutRoom_def Let_def sumPower_foldl power_stackDevices)

text \<open>
  Claim C7. The total power of every room of the output is the sum, taken from 0 in list
  order, of the per-unit max power of all its devices: of those in the output, placed or
  not, which are the imported records of that room. The allocator's total for any device
  list is the sum over the whole list.
\<close>

theorem room_total_power:
  "(\<forall>g \<in> set (parseCSV csvText).
      totalPower g = foldl numAdd (Fin 0) (map powerRatingPerDevice (devices g))
      \<and> totalPower g = foldl numAdd (Fin 0)
           (map powerRatingPerDevice
              (filter (\<lambda>d. room d = roomId g) (importedRecords csvText))))
   \<and> totalPower (layoutRoom (k, ds)) = foldl numAdd (Fin 0) (map powerRatingPerDevice ds)
   \<and> length (devices (layoutRoom (k, ds))) = length ds"
proof -
  have "totalPower g = foldl numAdd (Fin 0) (map powerRatingPerDevice (devices g))
      \<and> totalPower g = foldl numAdd (Fin 0)
           (map powerRatingPerDevice
              (filter (\<lambda>d. room d = roomId g) (importedRecords csvText)))"
    if g: "g \<in> set (parseCSV csvText)" for g
  proof -
    have t: "totalPower g = foldl numAdd (Fin 0) (map powerRatingPerDevice (devices g))"
      using g by (simp add: group_totalPower sumPower_foldl)
    have "map powerRatingPerDevice (devices g)
        = map powerRatingPerDevice (filter (\<lambda>d. room d = roomId g) (importedRecords csvText))"
      using g by (simp add: group_devices power_stackDevices)
    with t show ?thesis by simp
  qed
  moreover have "length (devices (layoutRoom (k, ds))) = length ds"
    by (simp add: layoutRoom_def Let_def length_stackDevices)
  ultimately show ?thesis
    using totalPower_layoutRoom by blast
qed

theorem room_total_power_witness:
  "parseCSV exampleCsv ! 0 \<in> set (parseCSV exampleCsv)
   \<and> totalPower (parseCSV exampleCsv ! 0) = Fin 1100
   \<and> map powerRatingPerDevice (devices (parseCSV exampleCsv ! 0)) = [Fin 500, Fin 500, Fin 100]
   \<and> map uPosition (devices (layoutRoom (''R'',
        [(exampleDevice ''a'' ''x'' ''R'' 10)\<lparr>uHeight := 48\<rparr>, exampleDevice ''b'' ''y'' ''R'' 5])))
       = [Some 48, None]
   \<and> totalPower (layoutRoom (''R'',
        [(exampleDevice ''a'' ''x'' ''R'' 10)\<lparr>uHeight := 48\<rparr>, exampleDevice ''b'' ''y'' ''R'' 5]))
       = Fin 15"
proof -
  let ?g = "parseCSV exampleCsv ! 0"
  let ?ds = "[(exampleDevice ''a'' ''x'' ''R'' 10)\<lparr>uHeight := 48\<rparr>, exampleDevice ''b'' ''y'' ''R'' 5]"
  note inst = room_total_power [of exampleCsv "''R''" ?ds]
  have g: "?g \<in> set (parseCSV exampleCsv)" by (simp add: example_result)
  have p: "map powerRatingPerDevice (devices ?g) = [Fin 500, Fin 500, Fin 100]"
    by (simp add: example_result exampleDevice_def)
  from inst g have "totalPower ?g = foldl numAdd (Fin 0) (map powerRatingPerDevice (devices ?g))"
    by blast
  then have t: "totalPower ?g = Fin 1100" unfolding p by simp
  have u: "map uPosition (devices (layoutRoom (''R'', ?ds))) = [Some 48, None]"
    by (simp add: layoutRoom_def Let_def placeDevice_def exampleDevice_def)
  from inst have "totalPower (layoutRoom (''R'', ?ds))
      = foldl numAdd (Fin 0) (map powerRatingPerDevice ?ds)"
    by blast
  then have v: "totalPower (layoutRoom (''R'', ?ds)) = Fin 15"
    by (simp add: exampleDevice_def)
  from g t p u v show ?thesis by blast
qed

section \<open>Rooms\<close>

subsection \<open>Fill-down\<close>

lemma stripQuotes_Nil: "stripQuotes [] = []"
  by (simp add: stripQuotes_def)

lemma trim_Nil: "trim [] = []"
  by (simp add: trim_def)

lemma roomOf_roomCell:
  "idxRoom cols = Some ix \<Longrightarrow>
     roomOf cols lastRoom row =
       (case roomCell ix row of Some v \<Rightarrow> (v, v) | None \<Rightarrow> (lastRoom, lastRoom))"
  by (auto simp: roomOf_def roomCell_def stripQuotes_Nil trim_Nil split: option.splits)

lemma roomOf_no_column: "idxRoom cols = None \<Longrightarrow> roomOf cols lastRoom row = (defaultRoom, lastRoom)"
  by (simp add: roomOf_def)

lemma processedRows_fillDown:
  "idxRoom cols = Some ix \<Longrightarrow>
     map (\<lambda>r. snd (snd r)) (processedRows headers cols lastRoom rows)
       = fillDown lastRoom
           (map (\<lambda>r. roomCell ix (fst (snd r))) (processedRows headers cols lastRoom rows))"
proof (induction rows arbitrary: lastRoom)
  case Nil
  show ?case by simp
next
  case (Cons r rows)
  obtain i line where r: "r = (i, line)" by (cases r)
  show ?case
  proof (cases "roomCell ix (parseLine line)")
    case None
    with Cons show ?thesis by (simp add: r roomOf_roomCell)
  next
    case (Some v)
    with Cons show ?thesis by (simp add: r roomOf_roomCell)
  qed
qed

lemma processedRows_no_column:
  "idxRoom cols = None \<Longrightarrow>
     r \<in> set (processedRows headers cols lastRoom rows) \<Longrightarrow> snd (snd r) = defaultRoom"
proof (induction rows arbitrary: lastRoom)
  case Nil
  then show ?case by simp
next
  case (Cons x rows)
  obtain i line where x: "x = (i, line)" by (cases x)
  from Cons show ?case
    by (auto simp: x roomOf_no_column split: if_splits)
qed

lemma nearestFilled_Cons_None:
  "nearestFilled dflt (None # cs) (Suc j) = nearestFilled dflt cs j"
  by (simp add: nearestFilled_def)

lemma nearestFilled_Cons_Some:
  "nearestFilled dflt (Some v # cs) (Suc j) = nearestFilled v cs j"
  by (cases "filter (\<lambda>c. c \<noteq> None) (take (Suc j) cs)") (simp_all add: nearestFilled_def)

lemma fillDown_nth:
  "j < length cs \<Longrightarrow> fillDown lastSeen cs ! j = nearestFilled lastSeen cs j"
proof (induction lastSeen cs arbitrary: j rule: fillDown.induct)
  case (1 lastSeen)
  then show ?case by simp
next
  case (2 lastSeen cs)
  then show ?case
    by (cases j) (simp_all add: nearestFilled_Cons_None, simp add: nearestFilled_def)
next
  case (3 lastSeen v cs)
  then show ?case
    by (cases j) (simp_all add: nearestFilled_Cons_Some, simp add: nearestFilled_def)
qed

lemma length_fillDown: "length (fillDown lastSeen cs) = length cs"
  by (induction lastSeen cs rule: fillDown.induct) simp_all

subsection \<open>The order of the rooms in the output\<close>

lemma firstSeen_same_tail:
  "firstSeen ys = firstSeen zs \<Longrightarrow> firstSeen (x # ys) = firstSeen (x # zs)"
  by simp

lemma firstSeen_twice: "firstSeen (x # x # ys) = firstSeen (x # ys)"
  by simp

lemma firstSeen_replicate:
  "0 < n \<Longrightarrow> firstSeen (replicate n x @ ys) = firstSeen (x # ys)"
proof (induction n)
  case 0
  then show ?case by simp
next
  case (Suc n)
  show ?case
  proof (cases "n = 0")
    case True
    then show ?thesis by simp
  next
    case False
    with Suc have "firstSeen (replicate n x @ ys) = firstSeen (x # ys)" by simp
    then have "firstSeen (x # replicate n x @ ys) = firstSeen (x # x # ys)"
      by (rule firstSeen_same_tail)
    then show ?thesis by (simp only: replicate_Suc append_Cons firstSeen_twice)
  qed
qed

lemma firstSeen_concat_replicate:
  "\<forall>x \<in> set xs. 0 < n x \<Longrightarrow>
     firstSeen (concat (map (\<lambda>x. replicate (n x) (f x)) xs)) = firstSeen (map f xs)"
proof (induction xs)
  case Nil
  show ?case by simp
next
  case (Cons x xs)
  then have "firstSeen (concat (map (\<lambda>x. replicate (n x) (f x)) xs)) = firstSeen (map f xs)"
    by simp
  then have "firstSeen (f x # concat (map (\<lambda>x. replicate (n x) (f x)) xs))
      = firstSeen (f x # map f xs)"
    by (rule firstSeen_same_tail)
  moreover from Cons.prems have "0 < n x" by simp
  ultimately show ?case
    by (simp only: list.map concat.simps firstSeen_replicate)
qed

lemma rooms_rowRecords:
  "map room (rowRecords cols r) = replicate (nat (qtyOf cols (fst (snd r)))) (snd (snd r))"
  by (simp add: rowRecords_def makeDevice_def comp_def map_replicate_const)

lemma rooms_importedRecords:
  "map room (importedRecords csvText)
     = concat (map (\<lambda>r. replicate (nat (qtyOf (columnsOf csvText) (fst (snd r)))) (snd (snd r)))
         (importedRows csvText))"
  by (simp add: importedRecords_def map_concat comp_def rooms_rowRecords)

lemma roomIds_rows:
  "map roomId (parseCSV csvText) = firstSeen (map (\<lambda>r. snd (snd r)) (importedRows csvText))"
proof -
  have "\<forall>r \<in> set (importedRows csvText). 0 < nat (qtyOf (columnsOf csvText) (fst (snd r)))"
    by (simp add: qtyOf_positive)
  then show ?thesis
    unfolding roomIds_parseCSV rooms_importedRecords
    by (rule firstSeen_concat_replicate)
qed

lemma firstIndex_filter:
  "P a \<Longrightarrow> P b \<Longrightarrow> a \<in> set ys \<Longrightarrow> b \<in> set ys \<Longrightarrow>
     firstIndex a (filter P ys) < firstIndex b (filter P ys) \<longleftrightarrow> firstIndex a ys < firstIndex b ys"
proof (induction ys)
  case Nil
  then show ?case by simp
next
  case (Cons y ys)
  show ?case
  proof (cases "a = y \<or> b = y")
    case True
    with Cons.prems show ?thesis by auto
  next
    case False
    with Cons.prems have "a \<in> set ys" and "b \<in> set ys" by auto
    with Cons.IH Cons.prems have
      "firstIndex a (filter P ys) < firstIndex b (filter P ys) \<longleftrightarrow> firstIndex a ys < firstIndex b ys"
      by blast
    with False show ?thesis by simp
  qed
qed

lemma firstIndex_firstSeen:
  "a \<in> set xs \<Longrightarrow> b \<in> set xs \<Longrightarrow>
     firstIndex a (firstSeen xs) < firstIndex b (firstSeen xs) \<longleftrightarrow> firstIndex a xs < firstIndex b xs"
proof (induction xs)
  case Nil
  then show ?case by simp
next
  case (Cons x xs)
  show ?case
  proof (cases "a = x \<or> b = x")
    case True
    then show ?thesis by auto
  next
    case False
    with Cons.prems have ab: "a \<in> set xs" "b \<in> set xs" by auto
    from False have "a \<noteq> x" and "b \<noteq> x" by auto
    then have "firstIndex a (filter (\<lambda>y. y \<noteq> x) (firstSeen xs))
          < firstIndex b (filter (\<lambda>y. y \<noteq> x) (firstSeen xs))
        \<longleftrightarrow> firstIndex a (firstSeen xs) < firstIndex b (firstSeen xs)"
      using ab by (intro firstIndex_filter) (simp_all add: set_firstSeen)
    with Cons.IH ab False show ?thesis by simp
  qed
qed

text \<open>
  Claim C9. The rooms of the output are the rooms of the processed rows, each once, in the
  order in which they are first seen: room \<open>a\<close> stands before room \<open>b\<close> in the output exactly
  when the first processed row of \<open>a\<close> comes before the first processed row of \<open>b\<close>.
\<close>

theorem rooms_in_first_seen_order:
  "map roomId (parseCSV csvText) = firstSeen (map (\<lambda>r. snd (snd r)) (importedRows csvText))
   \<and> distinct (map roomId (parseCSV csvText))
   \<and> set (map roomId (parseCSV csvText)) = set (map (\<lambda>r. snd (snd r)) (importedRows csvText))
   \<and> (\<forall>a \<in> set (map roomId (parseCSV csvText)). \<forall>b \<in> set (map roomId (parseCSV csvText)).
        firstIndex a (map roomId (parseCSV csvText)) < firstIndex b (map roomId (parseCSV csvText))
        \<longleftrightarrow> firstIndex a (map (\<lambda>r. snd (snd r)) (importedRows csvText))
              < firstIndex b (map (\<lambda>r. snd (snd r)) (importedRows csvText)))"
proof -
  let ?out = "map roomId (parseCSV csvText)"
  let ?rows = "map (\<lambda>r. snd (snd r)) (importedRows csvText)"
  have eq: "?out = firstSeen ?rows" by (rule roomIds_rows)
  have d: "distinct ?out" unfolding eq by (rule distinct_firstSeen)
  have s: "set ?out = set ?rows" unfolding eq by (rule set_firstSeen)
  have "firstIndex a ?out < firstIndex b ?out \<longleftrightarrow> firstIndex a ?rows < firstIndex b ?rows"
    if "a \<in> set ?out" and "b \<in> set ?out" for a b
  proof -
    from that s have "a \<in> set ?rows" and "b \<in> set ?rows" by simp_all
    then show ?thesis unfolding eq by (rule firstIndex_firstSeen)
  qed
  with eq d s show ?thesis by blast
qed

theorem rooms_in_first_seen_order_witness:
  "map roomId (parseCSV exampleCsv) = [''A'', ''B'']
   \<and> map (\<lambda>r. snd (snd r)) (importedRows exampleCsv) = [''A'', ''A'', ''B'']
   \<and> ''A'' \<in> set (map roomId (parseCSV exampleCsv))
   \<and> ''B'' \<in> set (map roomId (parseCSV exampleCsv))
   \<and> firstIndex ''A'' (map roomId (parseCSV exampleCsv))
       < firstIndex ''B'' (map roomId (parseCSV exampleCsv))
   \<and> firstIndex ''A'' (map (\<lambda>r. snd (snd r)) (importedRows exampleCsv))
       < firstIndex ''B'' (map (\<lambda>r. snd (snd r)) (importedRows exampleCsv))"
proof -
  let ?out = "map roomId (parseCSV exampleCsv)"
  let ?rows = "map (\<lambda>r. snd (snd r)) (importedRows exampleCsv)"
  note inst = rooms_in_first_seen_order [of exampleCsv]
  have rows: "?rows = [''A'', ''A'', ''B'']" by (simp add: example_rows)
  from inst have "?out = firstSeen ?rows" by blast
  then have out: "?out = [''A'', ''B'']" unfolding rows by simp
  have a: "''A'' \<in> set ?out" and b: "''B'' \<in> set ?out" by (simp_all add: out)
  have lt: "firstIndex ''A'' ?rows < firstIndex ''B'' ?rows" unfolding rows by simp
  from inst a b have "firstIndex ''A'' ?out < firstIndex ''B'' ?out
      \<longleftrightarrow> firstIndex ''A'' ?rows < firstIndex ''B'' ?rows"
    by blast
  with lt have "firstIndex ''A'' ?out < firstIndex ''B'' ?out" by blast
  with rows out a b lt show ?thesis by blast
qed

section \<open>Replication and identifiers\<close>

subsection \<open>Decimal digits\<close>

lemma digitChar_digit: "n < 10 \<Longrightarrow> digitChar n \<in> set ''0123456789''"
  unfolding digitChar_def by (rule nth_mem) simp

lemma digitChar_inj: "a < 10 \<Longrightarrow> b < 10 \<Longrightarrow> digitChar a = digitChar b \<Longrightarrow> a = b"
proof -
  assume a: "a < 10" and b: "b < 10" and eq: "digitChar a = digitChar b"
  have "distinct ''0123456789''" by simp
  moreover from a have "a < length ''0123456789''" by simp
  moreover from b have "b < length ''0123456789''" by simp
  ultimately show "a = b"
    using eq unfolding digitChar_def by (simp only: nth_eq_iff_index_eq)
qed

lemma set_decimal: "set (decimal n) \<subseteq> set ''0123456789''"
proof (induction n rule: decimal.induct)
  case (1 n)
  show ?case
  proof (cases "n < 10")
    case True
    then have "decimal n = [digitChar n]" by (subst decimal.simps) simp
    with True digitChar_digit [of n] show ?thesis by simp
  next
    case False
    then have "decimal n = decimal (n div 10) @ [digitChar (n mod 10)]"
      by (subst decimal.simps) simp
    moreover have "digitChar (n mod 10) \<in> set ''0123456789''"
      by (rule digitChar_digit) simp
    moreover from False have "set (decimal (n div 10)) \<subseteq> set ''0123456789''"
      by (rule 1)
    ultimately show ?thesis by simp
  qed
qed

lemma decimal_not_Nil: "decimal n \<noteq> []"
  by (subst decimal.simps) simp

lemma decimal_inj: "decimal m = decimal n \<Longrightarrow> m = n"
proof (induction m arbitrary: n rule: decimal.induct)
  case (1 m)
  have dm: "decimal m = (if m < 10 then [digitChar m]
      else decimal (m div 10) @ [digitChar (m mod 10)])"
    by (subst decimal.simps) simp
  have dn: "decimal n = (if n < 10 then [digitChar n]
      else decimal (n div 10) @ [digitChar (n mod 10)])"
    by (subst decimal.simps) simp
  show ?case
  proof (cases "m < 10")
    case small_m: True
    show ?thesis
    proof (cases "n < 10")
      case True
      with small_m "1.prems" dm dn show ?thesis by (simp add: digitChar_inj)
    next
      case False
      with small_m "1.prems" dm dn have "decimal (n div 10) = []" by simp
      then show ?thesis by (simp add: decimal_not_Nil)
    qed
  next
    case big_m: False
    show ?thesis
    proof (cases "n < 10")
      case True
      with big_m "1.prems" dm dn have "decimal (m div 10) = []" by simp
      then show ?thesis by (simp add: decimal_not_Nil)
    next
      case False
      with big_m "1.prems" dm dn
      have q: "decimal (m div 10) = decimal (n div 10)"
        and r: "digitChar (m mod 10) = digitChar (n mod 10)"
        by simp_all
      from big_m q have "m div 10 = n div 10" by (rule 1)
      moreover from r have "m mod 10 = n mod 10" by (intro digitChar_inj) simp_all
      ultimately show ?thesis by (metis div_mult_mod_eq)
    qed
  qed
qed

lemma digit_not_space: "c \<in> set ''0123456789'' \<Longrightarrow> \<not> isSpace c"
  by (auto simp: isSpace_def)

lemma hyphen_not_digit: "hyphen \<notin> set ''0123456789''"
  by (simp add: hyphen_def)

lemma hyphen_not_space: "\<not> isSpace hyphen"
  by (simp add: isSpace_def hyphen_def)

lemma hyphen_not_in_decimal: "hyphen \<notin> set (decimal n)"
  using set_decimal [of n] hyphen_not_digit by blast

subsection \<open>Replacing white space\<close>

lemma dropWhile_append_plain: "\<not> P c \<Longrightarrow> dropWhile P (xs @ c # ys) = dropWhile P xs @ c # ys"
  by (induction xs) simp_all

lemma replaceSpaces_append_plain:
  "\<not> isSpace c \<Longrightarrow> replaceSpaces (xs @ c # ys) = replaceSpaces xs @ c # replaceSpaces ys"
proof (induction xs rule: replaceSpaces.induct)
  case 1
  then show ?case by simp
next
  case (2 x xs)
  then show ?case by (simp add: dropWhile_append_plain)
qed

lemma replaceSpaces_plain: "\<forall>c \<in> set s. \<not> isSpace c \<Longrightarrow> replaceSpaces s = s"
  by (induction s) simp_all

lemma replaceSpaces_decimal: "replaceSpaces (decimal n) = decimal n"
  using set_decimal [of n] digit_not_space by (intro replaceSpaces_plain) blast

lemma deviceId_shape:
  "deviceId rm nm i k
     = (replaceSpaces (rm @ hyphen # nm) @ hyphen # decimal i) @ hyphen # decimal k"
proof -
  have "deviceId rm nm i k = replaceSpaces (((rm @ hyphen # nm) @ hyphen # decimal i) @ hyphen # decimal k)"
    by (simp add: deviceId_def)
  also have "\<dots> = replaceSpaces ((rm @ hyphen # nm) @ hyphen # decimal i) @ hyphen # decimal k"
    by (simp only: replaceSpaces_append_plain [OF hyphen_not_space] replaceSpaces_decimal)
  also have "replaceSpaces ((rm @ hyphen # nm) @ hyphen # decimal i)
      = replaceSpaces (rm @ hyphen # nm) @ hyphen # decimal i"
    by (simp only: replaceSpaces_append_plain [OF hyphen_not_space] replaceSpaces_decimal)
  finally show ?thesis .
qed

lemma split_at_first:
  "c \<notin> set p \<Longrightarrow> c \<notin> set q \<Longrightarrow> p @ c # s = q @ c # t \<Longrightarrow> p = q \<and> s = t"
proof (induction p arbitrary: q)
  case Nil
  then show ?case by (cases q) auto
next
  case (Cons a p)
  then show ?case by (cases q) auto
qed

lemma split_at_last:
  assumes "c \<notin> set ys" and "c \<notin> set zs" and "xs @ c # ys = ws @ c # zs"
  shows "xs = ws \<and> ys = zs"
proof -
  from assms(3) have "rev (xs @ c # ys) = rev (ws @ c # zs)" by simp
  then have "rev ys @ c # rev xs = rev zs @ c # rev ws" by simp
  moreover from assms(1,2) have "c \<notin> set (rev ys)" and "c \<notin> set (rev zs)" by simp_all
  ultimately have "rev ys = rev zs \<and> rev xs = rev ws"
    using split_at_first [of c "rev ys" "rev zs" "rev xs" "rev ws"] by blast
  then show ?thesis by simp
qed

lemma deviceId_inj:
  assumes "deviceId rm nm i k = deviceId rm' nm' i' k'"
  shows "i = i' \<and> k = k'"
proof -
  from assms have eq: "(replaceSpaces (rm @ hyphen # nm) @ hyphen # decimal i) @ hyphen # decimal k
      = (replaceSpaces (rm' @ hyphen # nm') @ hyphen # decimal i') @ hyphen # decimal k'"
    by (simp only: deviceId_shape)
  from split_at_last [OF hyphen_not_in_decimal hyphen_not_in_decimal eq]
  have a: "replaceSpaces (rm @ hyphen # nm) @ hyphen # decimal i
        = replaceSpaces (rm' @ hyphen # nm') @ hyphen # decimal i'"
    and b: "decimal k = decimal k'"
    by simp_all
  from split_at_last [OF hyphen_not_in_decimal hyphen_not_in_decimal a]
  have "decimal i = decimal i'" by simp
  with b show ?thesis by (simp add: decimal_inj)
qed

subsection \<open>The records of a row\<close>

lemma length_rowRecords: "length (rowRecords cols r) = nat (qtyOf cols (fst (snd r)))"
  by (simp add: rowRecords_def)

lemma rowRecords_nth:
  "k < nat (qtyOf cols (fst (snd r))) \<Longrightarrow>
     rowRecords cols r ! k =
       (makeDevice cols (snd (snd r)) (fst r) (fst (snd r)) 0)
         \<lparr>idStr := deviceId (snd (snd r)) (deviceNameOf cols (fst (snd r))) (fst r) k\<rparr>"
  by (simp add: rowRecords_def makeDevice_def)

lemma ids_rowRecords:
  "map idStr (rowRecords cols r)
     = map (deviceId (snd (snd r)) (deviceNameOf cols (fst (snd r))) (fst r))
         [0..<nat (qtyOf cols (fst (snd r)))]"
  by (simp add: rowRecords_def makeDevice_def comp_def)

lemma distinct_ids_rowRecords: "distinct (map idStr (rowRecords cols r))"
proof -
  have "inj_on (deviceId (snd (snd r)) (deviceNameOf cols (fst (snd r))) (fst r)) A" for A
    by (rule inj_onI) (simp add: deviceId_inj)
  then show ?thesis
    by (simp add: ids_rowRecords distinct_map)
qed

lemma id_of_rows:
  assumes "x \<in> set (map idStr (concat (map (rowRecords cols) rows)))"
  shows "\<exists>r \<in> set rows. \<exists>rm nm k. x = deviceId rm nm (fst r) k"
proof -
  from assms obtain r where r: "r \<in> set rows" and "x \<in> set (map idStr (rowRecords cols r))"
    by auto
  then obtain k where "x = deviceId (snd (snd r)) (deviceNameOf cols (fst (snd r))) (fst r) k"
    by (auto simp: ids_rowRecords)
  with r show ?thesis by blast
qed

lemma distinct_ids_rows:
  "distinct (map fst rows) \<Longrightarrow> distinct (map idStr (concat (map (rowRecords cols) rows)))"
proof (induction rows)
  case Nil
  show ?case by simp
next
  case (Cons r rows)
  have disjoint: "set (map idStr (rowRecords cols r))
      \<inter> set (map idStr (concat (map (rowRecords cols) rows))) = {}"
  proof (rule ccontr)
    assume "set (map idStr (rowRecords cols r))
        \<inter> set (map idStr (concat (map (rowRecords cols) rows))) \<noteq> {}"
    then obtain x where x1: "x \<in> set (map idStr (rowRecords cols r))"
      and x2: "x \<in> set (map idStr (concat (map (rowRecords cols) rows)))"
      by blast
    from x1 obtain k where "x = deviceId (snd (snd r)) (deviceNameOf cols (fst (snd r))) (fst r) k"
      by (auto simp: ids_rowRecords)
    moreover from id_of_rows [OF x2] obtain r' rm nm k'
      where "r' \<in> set rows" and "x = deviceId rm nm (fst r') k'"
      by blast
    ultimately have "fst r = fst r'" and "r' \<in> set rows"
      using deviceId_inj by metis+
    then have "fst r \<in> set (map fst rows)" by force
    with Cons.prems show False by simp
  qed
  from Cons have "distinct (map idStr (concat (map (rowRecords cols) rows)))" by simp
  with disjoint distinct_ids_rowRecords [of cols r] show ?case by simp
qed

lemma fst_processedRows:
  "map fst (processedRows headers cols lastRoom rows)
     = map fst (filter (\<lambda>x. \<not> skipRow headers (parseLine (snd x))) rows)"
proof (induction rows arbitrary: lastRoom)
  case Nil
  show ?case by simp
next
  case (Cons x rows)
  obtain i line where x: "x = (i, line)" by (cases x)
  from Cons show ?case by (simp add: x)
qed

lemma distinct_dataLines: "distinct (map fst (dataLines lines))"
proof -
  have "map fst (dataLines lines) = take (length (tl lines)) [1..<length lines]"
    by (simp add: dataLines_def map_fst_zip_take)
  then show ?thesis by simp
qed

lemma distinct_importedRows: "distinct (map fst (importedRows csvText))"
  by (simp add: importedRows_def fst_processedRows distinct_map_filter distinct_dataLines)

lemma distinct_imported_ids: "distinct (map idStr (importedRecords csvText))"
  unfolding importedRecords_def by (rule distinct_ids_rows) (rule distinct_importedRows)

subsection \<open>The output holds every record once\<close>

lemma mset_filter_disjoint:
  "\<forall>x. \<not> (P x \<and> Q x) \<Longrightarrow>
     mset (filter P xs) + mset (filter Q xs) = mset (filter (\<lambda>x. P x \<or> Q x) xs)"
  by (induction xs) auto

lemma mset_concat_filter:
  "distinct ks \<Longrightarrow>
     mset (concat (map (\<lambda>k. filter (\<lambda>d. f d = k) ds) ks)) = mset (filter (\<lambda>d. f d \<in> set ks) ds)"
proof (induction ks)
  case Nil
  show ?case by simp
next
  case (Cons k ks)
  then have "\<forall>d. \<not> (f d = k \<and> f d \<in> set ks)" by auto
  then have "mset (filter (\<lambda>d. f d = k) ds) + mset (filter (\<lambda>d. f d \<in> set ks) ds)
      = mset (filter (\<lambda>d. f d = k \<or> f d \<in> set ks) ds)"
    by (rule mset_filter_disjoint)
  with Cons show ?case by simp
qed

lemma mset_groupsOf: "mset (concat (map snd (groupsOf ds))) = mset ds"
proof -
  have "concat (map snd (groupsOf ds))
      = concat (map (\<lambda>k. filter (\<lambda>d. room d = k) ds) (firstSeen (map room ds)))"
    by (simp add: groupsOf_def comp_def)
  moreover have "filter (\<lambda>d. room d \<in> set (firstSeen (map room ds))) ds = ds"
    by (simp add: set_firstSeen)
  ultimately show ?thesis
    using mset_concat_filter [OF distinct_firstSeen, of room ds "map room ds"] by simp
qed

lemma unplaced_output:
  "map unplaced (concat (map devices (parseCSV csvText)))
     = map unplaced (concat (map snd (groupsOf (importedRecords csvText))))"
  by (simp add: parseCSV_groups layoutRoom_def Let_def map_concat comp_def
      map_unplaced_stackDevices)

lemma mset_output:
  "mset (map unplaced (concat (map devices (parseCSV csvText)))) = mset (importedRecords csvText)"
proof -
  have "mset (map unplaced (concat (map devices (parseCSV csvText))))
      = image_mset unplaced (mset (concat (map snd (groupsOf (importedRecords csvText)))))"
    by (simp add: unplaced_output)
  also have "\<dots> = image_mset unplaced (mset (importedRecords csvText))"
    by (simp only: mset_groupsOf)
  also have "\<dots> = mset (map unplaced (importedRecords csvText))" by simp
  finally show ?thesis by (simp only: unplaced_imported)
qed

lemma distinct_output_ids: "distinct (map idStr (concat (map devices (parseCSV csvText))))"
proof -
  let ?out = "concat (map devices (parseCSV csvText))"
  have m: "mset (map unplaced ?out) = mset (importedRecords csvText)"
    by (rule mset_output)
  have "map idStr ?out = map idStr (map unplaced ?out)"
    by (simp add: unplaced_fields)
  then have "mset (map idStr ?out) = mset (map idStr (map unplaced ?out))"
    by (rule arg_cong)
  also have "\<dots> = image_mset idStr (mset (map unplaced ?out))"
    by (rule mset_map)
  also have "\<dots> = image_mset idStr (mset (importedRecords csvText))"
    by (simp only: m)
  also have "\<dots> = mset (map idStr (importedRecords csvText))"
    by (rule mset_map [symmetric])
  finally have "mset (map idStr ?out) = mset (map idStr (importedRecords csvText))" .
  then have "distinct (map idStr ?out) \<longleftrightarrow> distinct (map idStr (importedRecords csvText))"
    by (rule mset_eq_imp_distinct_iff)
  with distinct_imported_ids show ?thesis by simp
qed

text \<open>
  Claim C1. A processed row with resolved quantity \<open>Q\<close> (always at least 1) gives exactly
  \<open>Q\<close> records; replica \<open>k\<close> is replica 0 with its \<open>id\<close> replaced by
  \<open>deviceId room name i k\<close>, a function of the room, the name, the line index \<open>i\<close> of the
  row and \<open>k\<close>, so all other fields agree. The output holds exactly these records, each
  once (up to the allocator's position and connections), every room's in row order then
  replica order, and all \<open>id\<close>s of the output are pairwise distinct.
\<close>

theorem replication_and_ids:
  "(\<forall>r \<in> set (importedRows csvText).
      0 < qtyOf (columnsOf csvText) (fst (snd r))
      \<and> length (rowRecords (columnsOf csvText) r) = nat (qtyOf (columnsOf csvText) (fst (snd r)))
      \<and> (\<forall>k < nat (qtyOf (columnsOf csvText) (fst (snd r))).
           rowRecords (columnsOf csvText) r ! k =
             (makeDevice (columnsOf csvText) (snd (snd r)) (fst r) (fst (snd r)) 0)
               \<lparr>idStr := deviceId (snd (snd r))
                   (deviceNameOf (columnsOf csvText) (fst (snd r))) (fst r) k\<rparr>))
   \<and> distinct (map fst (importedRows csvText))
   \<and> mset (map unplaced (concat (map devices (parseCSV csvText))))
       = mset (concat (map (rowRecords (columnsOf csvText)) (importedRows csvText)))
   \<and> (\<forall>g \<in> set (parseCSV csvText).
        map unplaced (devices g)
          = filter (\<lambda>d. room d = roomId g)
              (concat (map (rowRecords (columnsOf csvText)) (importedRows csvText))))
   \<and> distinct (map idStr (concat (map devices (parseCSV csvText))))"
proof -
  have a: "\<forall>r \<in> set (importedRows csvText).
      0 < qtyOf (columnsOf csvText) (fst (snd r))
      \<and> length (rowRecords (columnsOf csvText) r) = nat (qtyOf (columnsOf csvText) (fst (snd r)))
      \<and> (\<forall>k < nat (qtyOf (columnsOf csvText) (fst (snd r))).
           rowRecords (columnsOf csvText) r ! k =
             (makeDevice (columnsOf csvText) (snd (snd r)) (fst r) (fst (snd r)) 0)
               \<lparr>idStr := deviceId (snd (snd r))
                   (deviceNameOf (columnsOf csvText) (fst (snd r))) (fst r) k\<rparr>)"
    by (simp add: qtyOf_positive length_rowRecords rowRecords_nth)
  have b: "mset (map unplaced (concat (map devices (parseCSV csvText))))
       = mset (concat (map (rowRecords (columnsOf csvText)) (importedRows csvText)))"
    using mset_output [of csvText] by (simp only: importedRecords_def)
  have c: "\<forall>g \<in> set (parseCSV csvText).
        map unplaced (devices g)
          = filter (\<lambda>d. room d = roomId g)
              (concat (map (rowRecords (columnsOf csvText)) (importedRows csvText)))"
    using group_unplaced [of _ csvText] by (simp only: importedRecords_def) blast
  from a b c distinct_importedRows [of csvText] distinct_output_ids [of csvText]
  show ?thesis by blast
qed

theorem replication_and_ids_witness:
  "importedRows exampleCsv ! 0 \<in> set (importedRows exampleCsv)
   \<and> qtyOf (columnsOf exampleCsv) (fst (snd (importedRows exampleCsv ! 0))) = 2
   \<and> length (rowRecords (columnsOf exampleCsv) (importedRows exampleCsv ! 0)) = 2
   \<and> idStr (rowRecords (columnsOf exampleCsv) (importedRows exampleCsv ! 0) ! 1) = ''A-srv-1-1''
   \<and> parseCSV exampleCsv ! 1 \<in> set (parseCSV exampleCsv)
   \<and> map idStr (devices (parseCSV exampleCsv ! 1)) = [''B-ups-3-0'']
   \<and> map idStr (concat (map devices (parseCSV exampleCsv)))
       = [''A-srv-1-0'', ''A-srv-1-1'', ''A-sw-2-0'', ''B-ups-3-0'']"
proof -
  let ?cols = "columnsOf exampleCsv"
  let ?r = "importedRows exampleCsv ! 0"
  let ?g = "parseCSV exampleCsv ! 1"
  note inst = replication_and_ids [of exampleCsv]
  have r: "?r \<in> set (importedRows exampleCsv)" by (simp add: example_rows)
  have q: "qtyOf ?cols (fst (snd ?r)) = 2"
    unfolding example_columns example_rows by code_simp
  from inst r have "length (rowRecords ?cols ?r) = nat (qtyOf ?cols (fst (snd ?r)))"
    by blast
  then have len: "length (rowRecords ?cols ?r) = 2" by (simp add: q)
  have k: "1 < nat (qtyOf ?cols (fst (snd ?r)))" by (simp add: q)
  from inst r k have "rowRecords ?cols ?r ! 1 =
      (makeDevice ?cols (snd (snd ?r)) (fst ?r) (fst (snd ?r)) 0)
         \<lparr>idStr := deviceId (snd (snd ?r)) (deviceNameOf ?cols (fst (snd ?r))) (fst ?r) 1\<rparr>"
    by blast
  then have "idStr (rowRecords ?cols ?r ! 1)
      = deviceId (snd (snd ?r)) (deviceNameOf ?cols (fst (snd ?r))) (fst ?r) 1"
    by simp
  also have "\<dots> = ''A-srv-1-1''"
    unfolding example_columns example_rows by code_simp
  finally have id1: "idStr (rowRecords ?cols ?r ! 1) = ''A-srv-1-1''" .
  have g: "?g \<in> set (parseCSV exampleCsv)" by (simp add: example_result)
  from inst g have "map unplaced (devices ?g)
      = filter (\<lambda>d. room d = roomId ?g)
          (concat (map (rowRecords ?cols) (importedRows exampleCsv)))"
    by blast
  then have "map idStr (map unplaced (devices ?g)) = [''B-ups-3-0'']"
    unfolding importedRecords_def [symmetric] example_records
    by (simp add: example_result exampleDevice_def)
  then have gi: "map idStr (devices ?g) = [''B-ups-3-0'']"
    by (simp add: comp_def unplaced_fields)
  have all: "map idStr (concat (map devices (parseCSV exampleCsv)))
       = [''A-srv-1-0'', ''A-srv-1-1'', ''A-sw-2-0'', ''B-ups-3-0'']"
    by (simp add: example_result exampleDevice_def)
  from r q len id1 g gi all show ?thesis by blast
qed

subsection \<open>Quotes\<close>

lemma splitQuoted_not_Nil: "splitQuoted q s \<noteq> []"
  by (induction s arbitrary: q) (auto split: list.splits)

lemma splitQuoted_Cons:
  "splitQuoted q (c # cs) =
     (if c = comma \<and> \<not> q then [] # splitQuoted q cs
      else (c # hd (splitQuoted (if c = dquote then \<not> q else q) cs))
           # tl (splitQuoted (if c = dquote then \<not> q else q) cs))"
  using splitQuoted_not_Nil [of "if c = dquote then \<not> q else q" cs]
  by (cases "splitQuoted (if c = dquote then \<not> q else q) cs") simp_all

lemma comma_not_dquote: "comma \<noteq> dquote" "dquote \<noteq> comma"
  by (simp_all add: comma_def dquote_def)

lemma parseLineLoop_splitQuoted:
  "parseLineLoop result cl q s =
     result @ trim (cl @ filter (\<lambda>c. c \<noteq> dquote) (hd (splitQuoted q s)))
            # map cleanField (tl (splitQuoted q s))"
proof (induction s arbitrary: result cl q)
  case Nil
  show ?case by simp
next
  case (Cons c cs)
  show ?case
  proof (cases "c = dquote")
    case True
    then show ?thesis
      by (simp only: parseLineLoop.simps splitQuoted_Cons Cons.IH if_True) (simp add: comma_not_dquote)
  next
    case notq: False
    show ?thesis
    proof (cases "c = comma \<and> \<not> q")
      case True
      have "splitQuoted q cs = hd (splitQuoted q cs) # tl (splitQuoted q cs)"
        using splitQuoted_not_Nil [of q cs] by simp
      then have "map cleanField (splitQuoted q cs)
          = trim (filter (\<lambda>c. c \<noteq> dquote) (hd (splitQuoted q cs)))
            # map cleanField (tl (splitQuoted q cs))"
        by (metis cleanField_def list.simps(9))
      with True notq show ?thesis
        by (simp add: Cons.IH splitQuoted_Cons)
    next
      case False
      with notq show ?thesis
        by (simp only: parseLineLoop.simps splitQuoted_Cons Cons.IH if_False) simp
    qed
  qed
qed

lemma parseLine_splitQuoted: "parseLine s = map cleanField (splitQuoted False s)"
proof -
  have "splitQuoted False s = hd (splitQuoted False s) # tl (splitQuoted False s)"
    using splitQuoted_not_Nil [of False s] by simp
  then have "map cleanField (splitQuoted False s)
      = trim (filter (\<lambda>c. c \<noteq> dquote) (hd (splitQuoted False s)))
        # map cleanField (tl (splitQuoted False s))"
    by (metis cleanField_def list.simps(9))
  then show ?thesis
    by (simp add: parseLine_def parseLineLoop_splitQuoted)
qed

lemma joinFields_Cons: "fs \<noteq> [] \<Longrightarrow> joinFields (f # fs) = f @ comma # joinFields fs"
  by (cases fs) simp_all

lemma joinFields_push: "fs \<noteq> [] \<Longrightarrow> joinFields ((c # hd fs) # tl fs) = c # joinFields fs"
  by (cases fs rule: joinFields.cases) simp_all

lemma joinFields_splitQuoted: "joinFields (splitQuoted q s) = s"
proof (induction s arbitrary: q)
  case Nil
  show ?case by simp
next
  case (Cons c cs)
  show ?case
  proof (cases "c = comma \<and> \<not> q")
    case True
    then show ?thesis
      by (simp add: joinFields_Cons splitQuoted_not_Nil Cons.IH)
  next
    case False
    then show ?thesis
      by (simp only: splitQuoted_Cons if_False joinFields_push [OF splitQuoted_not_Nil] Cons.IH)
  qed
qed

lemma set_trim: "set (trim s) \<subseteq> set s"
proof -
  have "set (dropWhile isSpace (rev (dropWhile isSpace s))) \<subseteq> set (rev (dropWhile isSpace s))"
    by (rule set_dropWhileD [THEN subsetI])
  also have "\<dots> \<subseteq> set s"
    using set_dropWhileD [of _ isSpace s] by auto
  finally show ?thesis by (simp add: trim_def)
qed

lemma cleanField_no_quote: "dquote \<notin> set (cleanField f)"
  using set_trim [of "filter (\<lambda>c. c \<noteq> dquote) f"] by (auto simp: cleanField_def)

lemma stripQuotes_no_quote: "dquote \<notin> set f \<Longrightarrow> stripQuotes f = f"
proof (cases f)
  case Nil
  then show ?thesis by (simp add: stripQuotes_def)
next
  case (Cons c cs)
  assume n: "dquote \<notin> set f"
  with Cons have "c \<noteq> dquote" by auto
  moreover from n Cons have "last (c # cs) \<noteq> dquote"
    using last_in_set [of "c # cs"] by auto
  ultimately show ?thesis by (simp add: stripQuotes_def Cons)
qed

text \<open>
  Claim C5, as stated, fails on a field with quotes inside it: the specification's cleaning
  leaves \<^verbatim>\<open>a"b"c\<close> as it is, the code gives \<^verbatim>\<open>abc\<close>.
\<close>

theorem fields_keep_inner_quotes_counterexample:
  "parseLine innerQuotes = [''abc'']
   \<and> specFields innerQuotes = [innerQuotes]
   \<and> parseLine innerQuotes \<noteq> specFields innerQuotes"
proof -
  have a: "parseLine innerQuotes = [''abc'']" by code_simp
  have b: "specFields innerQuotes = [innerQuotes]" by code_simp
  have c: "[''abc''] \<noteq> [innerQuotes]" by code_simp
  from a b c show ?thesis by simp
qed

text \<open>
  Claim C5, amended. Each quote character toggles the inside-quotes state and a comma
  inside quotes does not split; the raw fields, put together with commas, are the line.
  Each field of \<^verbatim>\<open>parseLine\<close> is its raw field with every quote character dropped and then
  the surrounding white space trimmed; no other character is altered or removed. So no
  field holds a quote, and the later stripping of enclosing quotes changes nothing.
\<close>

theorem fields_drop_every_quote:
  "parseLine line = map (\<lambda>f. trim (filter (\<lambda>c. c \<noteq> dquote) f)) (splitQuoted False line)
   \<and> joinFields (splitQuoted False line) = line
   \<and> (\<forall>f \<in> set (parseLine line). dquote \<notin> set f \<and> stripQuotes f = f)"
proof -
  have a: "parseLine line = map (\<lambda>f. trim (filter (\<lambda>c. c \<noteq> dquote) f)) (splitQuoted False line)"
    using parseLine_splitQuoted [of line] by (simp add: cleanField_def [abs_def])
  have b: "joinFields (splitQuoted False line) = line"
    by (rule joinFields_splitQuoted)
  have c: "dquote \<notin> set f \<and> stripQuotes f = f" if "f \<in> set (parseLine line)" for f
  proof -
    from that obtain g where "f = cleanField g"
      by (auto simp: parseLine_splitQuoted)
    then have "dquote \<notin> set f" by (simp add: cleanField_no_quote)
    then show ?thesis by (simp add: stripQuotes_no_quote)
  qed
  from a b c show ?thesis by blast
qed

theorem fields_drop_every_quote_witness:
  "parseLine (''a, '' @ [dquote] @ ''b,c'' @ [dquote] @ '', d '') = [''a'', ''b,c'', ''d'']
   \<and> ''b,c'' \<in> set (parseLine (''a, '' @ [dquote] @ ''b,c'' @ [dquote] @ '', d ''))
   \<and> dquote \<notin> set ''b,c''
   \<and> stripQuotes ''b,c'' = ''b,c''
   \<and> splitQuoted False (''a, '' @ [dquote] @ ''b,c'' @ [dquote] @ '', d '')
       = [''a'', '' '' @ [dquote] @ ''b,c'' @ [dquote], '' d '']"
proof -
  let ?line = "''a, '' @ [dquote] @ ''b,c'' @ [dquote] @ '', d ''"
  note inst = fields_drop_every_quote [of ?line]
  have s: "splitQuoted False ?line = [''a'', '' '' @ [dquote] @ ''b,c'' @ [dquote], '' d '']"
    by code_simp
  have t: "map (\<lambda>f. trim (filter (\<lambda>c. c \<noteq> dquote) f))
      [''a'', '' '' @ [dquote] @ ''b,c'' @ [dquote], '' d ''] = [''a'', ''b,c'', ''d'']"
    by code_simp
  from inst have "parseLine ?line
      = map (\<lambda>f. trim (filter (\<lambda>c. c \<noteq> dquote) f)) (splitQuoted False ?line)"
    by blast
  then have p: "parseLine ?line = [''a'', ''b,c'', ''d'']"
    unfolding s t .
  then have m: "''b,c'' \<in> set (parseLine ?line)" by simp
  from inst m have "dquote \<notin> set ''b,c'' \<and> stripQuotes ''b,c'' = ''b,c''"
    by blast
  with p m s show ?thesis by blast
qed

section \<open>The rooms of the records\<close>

subsection \<open>One step of the row loop\<close>

lemma roomOf_filled:
  "roomOf cols lastRoom row = (filledRoom cols lastRoom row, carriedRoom cols lastRoom row)"
proof (cases "idxRoom cols")
  case None
  then show ?thesis by (simp add: roomOf_no_column filledRoom_def carriedRoom_def)
next
  case (Some ix)
  then show ?thesis
    by (simp add: roomOf_roomCell filledRoom_def carriedRoom_def split: option.splits)
qed

lemma rowLoop_skip:
  "skipRow headers (parseLine line) \<Longrightarrow>
     rowLoop headers cols m lastRoom ((i, line) # rest) = rowLoop headers cols m lastRoom rest"
  by simp

lemma rowLoop_process:
  "\<not> skipRow headers (parseLine line) \<Longrightarrow>
     rowLoop headers cols m lastRoom ((i, line) # rest) =
       rowLoop headers cols
         (pushReplicas cols (filledRoom cols lastRoom (parseLine line)) i (parseLine line) m)
         (carriedRoom cols lastRoom (parseLine line)) rest"
  by (simp add: roomOf_filled Let_def)

lemma room_makeDevice: "room (makeDevice cols rm i row k) = rm"
  by (simp add: makeDevice_def)

subsection \<open>The processed rows are the lines that are not skipped\<close>

lemma processedRows_lines:
  "map (\<lambda>r. (fst r, fst (snd r))) (processedRows headers cols lastRoom rows)
     = map (\<lambda>x. (fst x, parseLine (snd x)))
         (filter (\<lambda>x. \<not> skipRow headers (parseLine (snd x))) rows)"
proof (induction rows arbitrary: lastRoom)
  case Nil
  show ?case by simp
next
  case (Cons x rows)
  obtain i line where x: "x = (i, line)" by (cases x)
  from Cons show ?case by (simp add: x)
qed

lemma importedRows_lines:
  "map (\<lambda>r. (fst r, fst (snd r))) (importedRows csvText)
     = (if length (textLines csvText) < 2 then []
        else map (\<lambda>x. (fst x, parseLine (snd x)))
               (filter (\<lambda>x. \<not> skipRow (headersOf (textLines csvText)) (parseLine (snd x)))
                  (dataLines (textLines csvText))))"
  by (simp add: importedRows_def processedRows_lines)

subsection \<open>An input with a skipped line\<close>

lemma skipped_lines: "textLines skippedRoomCsv = [''Room,Device,Qty'', ''Z'', '',sw,1'']"
  by code_simp

lemma skipped_headers: "headersOf (textLines skippedRoomCsv) = [''Room'', ''Device'', ''Qty'']"
  unfolding skipped_lines by code_simp

lemma skipped_columns: "columnsOf skippedRoomCsv = skippedRoomColumns"
  unfolding columnsOf_def skipped_headers resolveColumns_lowered by code_simp

lemma skipped_rows:
  "importedRows skippedRoomCsv = [(2, ['''', ''sw'', ''1''], ''Default Room'')]"
  unfolding importedRows_def skipped_columns skipped_headers unfolding skipped_lines
  by code_simp

lemma skipped_records:
  "importedRecords skippedRoomCsv
     = [exampleDevice ''Default-Room-sw-2-0'' ''sw'' ''Default Room'' 0]"
  unfolding importedRecords_def skipped_columns skipped_rows by code_simp

lemma skipped_result:
  "parseCSV skippedRoomCsv =
     [\<lparr> roomId = ''Default Room'',
         devices =
           [(exampleDevice ''Default-Room-sw-2-0'' ''sw'' ''Default Room'' 0)
              \<lparr>uPosition := Some 48, psuConnections := [(0, None)]\<rparr>],
         totalPower = Fin 0 \<rparr>]"
  unfolding parseCSV_imported skipped_records by code_simp

lemma skipped_cells: "allRoomCells 0 skippedRoomCsv = [Some ''Z'', None]"
  unfolding allRoomCells_def skipped_lines by code_simp

lemma negative_rows: "importedRows negativeCsv = [(1, [''-5''], ''Default Room'')]"
  unfolding importedRows_def negative_columns by code_simp

text \<open>
  Claim C6, as stated, fails where a line before the row is skipped: under the header
  \<^verbatim>\<open>Room,Device,Qty\<close> the line \<^verbatim>\<open>Z\<close> has the non-empty room cell \<^verbatim>\<open>Z\<close>, and it is the
  nearest one before the row \<^verbatim>\<open>,sw,1\<close>, whose own room cell is empty; that row does not
  inherit \<^verbatim>\<open>Z\<close> but gets the default label, because the line \<^verbatim>\<open>Z\<close> has one field and is
  skipped before the room logic runs.
\<close>

theorem fill_down_skipped_line_counterexample:
  "idxRoom (columnsOf skippedRoomCsv) = Some 0
   \<and> allRoomCells 0 skippedRoomCsv = [Some ''Z'', None]
   \<and> nearestFilled defaultRoom (allRoomCells 0 skippedRoomCsv) 1 = ''Z''
   \<and> length (parseCSV skippedRoomCsv) = 1
   \<and> map name (devices (parseCSV skippedRoomCsv ! 0)) = [''sw'']
   \<and> map room (devices (parseCSV skippedRoomCsv ! 0)) = [''Default Room'']
   \<and> ''Default Room'' \<noteq> ''Z''"
  by (simp add: skipped_columns skippedRoomColumns_def skipped_cells nearestFilled_def
      skipped_result exampleDevice_def)

text \<open>
  Claim C6, amended. The row loop skips a line without touching \<^verbatim>\<open>lastRoom\<close>; a line it
  processes gets, with a room column, its cleaned room cell as room and as new
  \<^verbatim>\<open>lastRoom\<close> when that cell is not empty, and \<^verbatim>\<open>lastRoom\<close> as room, unchanged, when it is
  empty; with no room column it gets the default room label; every record of the row is
  pushed with that room. So over a whole text, whose processed rows are its data lines
  that are not skipped: with a room column at \<open>ix\<close> the room of the processed row at place
  \<open>j\<close> is the nearest non-empty cleaned room cell among the processed rows up to and
  including \<open>j\<close>, and the default room label when there is none; with no room column it is
  the default room label. The output holds exactly the records of the processed rows,
  each in the room of its row.
\<close>

theorem fill_down_over_processed_rows:
  "(skipRow headers (parseLine line) \<longrightarrow>
      rowLoop headers cols m lastRoom ((i, line) # rest) = rowLoop headers cols m lastRoom rest)
   \<and> (\<not> skipRow headers (parseLine line) \<longrightarrow>
        rowLoop headers cols m lastRoom ((i, line) # rest) =
          rowLoop headers cols
            (pushReplicas cols (filledRoom cols lastRoom (parseLine line)) i (parseLine line) m)
            (carriedRoom cols lastRoom (parseLine line)) rest)
   \<and> room (makeDevice cols rm i row k) = rm
   \<and> map (\<lambda>r. (fst r, fst (snd r))) (importedRows csvText)
       = (if length (textLines csvText) < 2 then []
          else map (\<lambda>x. (fst x, parseLine (snd x)))
                 (filter (\<lambda>x. \<not> skipRow (headersOf (textLines csvText)) (parseLine (snd x)))
                    (dataLines (textLines csvText))))
   \<and> mset (map unplaced (concat (map devices (parseCSV csvText))))
       = mset (concat (map (rowRecords (columnsOf csvText)) (importedRows csvText)))
   \<and> (\<forall>g \<in> set (parseCSV csvText).
        map unplaced (devices g)
          = filter (\<lambda>d. room d = roomId g)
              (concat (map (rowRecords (columnsOf csvText)) (importedRows csvText))))
   \<and> (\<forall>r \<in> set (importedRows csvText). \<forall>e \<in> set (rowRecords (columnsOf csvText) r).
        room e = snd (snd r))
   \<and> (\<forall>ix. idxRoom (columnsOf csvText) = Some ix \<longrightarrow>
        (\<forall>j < length (importedRows csvText).
           snd (snd (importedRows csvText ! j))
             = nearestFilled defaultRoom
                 (map (\<lambda>r. roomCell ix (fst (snd r))) (importedRows csvText)) j))
   \<and> (idxRoom (columnsOf csvText) = None \<longrightarrow>
        (\<forall>r \<in> set (importedRows csvText). snd (snd r) = defaultRoom))
   \<and> nearestFilled dflt [] j = dflt
   \<and> nearestFilled dflt (cs @ [Some v]) (length cs) = v
   \<and> nearestFilled dflt (cs @ [None]) (length cs) = nearestFilled dflt cs (length cs - 1)"
proof -
  have s1: "skipRow headers (parseLine line) \<longrightarrow>
      rowLoop headers cols m lastRoom ((i, line) # rest) = rowLoop headers cols m lastRoom rest"
    using rowLoop_skip by blast
  have s2: "\<not> skipRow headers (parseLine line) \<longrightarrow>
        rowLoop headers cols m lastRoom ((i, line) # rest) =
          rowLoop headers cols
            (pushReplicas cols (filledRoom cols lastRoom (parseLine line)) i (parseLine line) m)
            (carriedRoom cols lastRoom (parseLine line)) rest"
    using rowLoop_process by blast
  have s3: "room (makeDevice cols rm i row k) = rm"
    by (rule room_makeDevice)
  have t1: "mset (map unplaced (concat (map devices (parseCSV csvText))))
       = mset (concat (map (rowRecords (columnsOf csvText)) (importedRows csvText)))"
    using mset_output [of csvText] by (simp only: importedRecords_def)
  have t2: "\<forall>g \<in> set (parseCSV csvText).
        map unplaced (devices g)
          = filter (\<lambda>d. room d = roomId g)
              (concat (map (rowRecords (columnsOf csvText)) (importedRows csvText)))"
    using group_unplaced [of _ csvText] by (simp only: importedRecords_def) blast
  have t3: "\<forall>r \<in> set (importedRows csvText). \<forall>e \<in> set (rowRecords (columnsOf csvText) r).
        room e = snd (snd r)"
    using rowRecords_fields(4) by blast
  have a: "snd (snd (importedRows csvText ! j))
           = nearestFilled defaultRoom
               (map (\<lambda>r. roomCell ix (fst (snd r))) (importedRows csvText)) j"
    if ix: "idxRoom (columnsOf csvText) = Some ix" and j: "j < length (importedRows csvText)"
    for ix j
  proof -
    let ?rows = "importedRows csvText"
    have "map (\<lambda>r. snd (snd r)) ?rows
        = fillDown defaultRoom (map (\<lambda>r. roomCell ix (fst (snd r))) ?rows)"
      using ix by (simp add: importedRows_def processedRows_fillDown)
    then have "map (\<lambda>r. snd (snd r)) ?rows ! j
        = fillDown defaultRoom (map (\<lambda>r. roomCell ix (fst (snd r))) ?rows) ! j"
      by simp
    with j show ?thesis by (simp add: fillDown_nth)
  qed
  have b: "snd (snd r) = defaultRoom"
    if "idxRoom (columnsOf csvText) = None" and "r \<in> set (importedRows csvText)" for r
    using that by (auto simp: importedRows_def processedRows_no_column split: if_splits)
  have d: "nearestFilled dflt [] j = dflt"
    by (simp add: nearestFilled_def)
  have e: "nearestFilled dflt (cs @ [Some v]) (length cs) = v"
    by (cases "filter (\<lambda>c. c \<noteq> None) cs") (simp_all add: nearestFilled_def)
  have f: "nearestFilled dflt (cs @ [None]) (length cs) = nearestFilled dflt cs (length cs - 1)"
    by (cases cs rule: rev_cases) (simp_all add: nearestFilled_def)
  have g: "(\<forall>ix. idxRoom (columnsOf csvText) = Some ix \<longrightarrow>
        (\<forall>j < length (importedRows csvText).
           snd (snd (importedRows csvText ! j))
             = nearestFilled defaultRoom
                 (map (\<lambda>r. roomCell ix (fst (snd r))) (importedRows csvText)) j))
      \<and> (idxRoom (columnsOf csvText) = None \<longrightarrow>
        (\<forall>r \<in> set (importedRows csvText). snd (snd r) = defaultRoom))"
    using a b by blast
  show ?thesis
    by (intro conjI s1 s2 s3 importedRows_lines t1 t2 t3 g [THEN conjunct1] g [THEN conjunct2]
        d e f)
qed

theorem fill_down_over_processed_rows_witness:
  "skipRow [''Room'', ''Device'', ''Qty''] (parseLine ''Z'')
   \<and> rowLoop [''Room'', ''Device'', ''Qty''] skippedRoomColumns [] ''A'' [(1, ''Z'')] = []
   \<and> \<not> skipRow [''Room'', ''Device'', ''Qty''] (parseLine '',sw,1'')
   \<and> rowLoop [''Room'', ''Device'', ''Qty''] skippedRoomColumns [] ''A'' [(2, '',sw,1'')]
       = [(''A'', [exampleDevice ''A-sw-2-0'' ''sw'' ''A'' 0])]
   \<and> idxRoom (columnsOf exampleCsv) = Some 0
   \<and> 1 < length (importedRows exampleCsv)
   \<and> roomCell 0 (fst (snd (importedRows exampleCsv ! 1))) = None
   \<and> snd (snd (importedRows exampleCsv ! 1)) = ''A''
   \<and> parseCSV exampleCsv ! 0 \<in> set (parseCSV exampleCsv)
   \<and> map name (devices (parseCSV exampleCsv ! 0)) = [''srv'', ''srv'', ''sw'']
   \<and> map room (devices (parseCSV exampleCsv ! 0)) = [''A'', ''A'', ''A'']
   \<and> importedRows exampleCsv ! 2 \<in> set (importedRows exampleCsv)
   \<and> rowRecords (columnsOf exampleCsv) (importedRows exampleCsv ! 2) ! 0
       \<in> set (rowRecords (columnsOf exampleCsv) (importedRows exampleCsv ! 2))
   \<and> room (rowRecords (columnsOf exampleCsv) (importedRows exampleCsv ! 2) ! 0) = ''B''
   \<and> idxRoom (columnsOf negativeCsv) = None
   \<and> importedRows negativeCsv ! 0 \<in> set (importedRows negativeCsv)
   \<and> snd (snd (importedRows negativeCsv ! 0)) = ''Default Room''"
proof -
  let ?h = "[''Room'', ''Device'', ''Qty'']"
  let ?rows = "importedRows exampleCsv"
  let ?g = "parseCSV exampleCsv ! 0"
  note ex = fill_down_over_processed_rows
    [of ?h "''Z''" skippedRoomColumns "[]" "''A''" 1 "[]" "''''" "[]" 0 exampleCsv "''''" 0 "[]" "''''"]
  note pr = fill_down_over_processed_rows
    [of ?h "'',sw,1''" skippedRoomColumns "[]" "''A''" 2 "[]" "''''" "[]" 0 negativeCsv "''''" 0 "[]" "''''"]
  have k1: "skipRow ?h (parseLine ''Z'')" by code_simp
  from ex k1 have "rowLoop ?h skippedRoomColumns [] ''A'' [(1, ''Z'')]
      = rowLoop ?h skippedRoomColumns [] ''A'' []"
    by blast
  then have w1: "rowLoop ?h skippedRoomColumns [] ''A'' [(1, ''Z'')] = []"
    by simp
  have k2: "\<not> skipRow ?h (parseLine '',sw,1'')" by code_simp
  have push: "pushReplicas skippedRoomColumns
      (filledRoom skippedRoomColumns ''A'' (parseLine '',sw,1'')) 2 (parseLine '',sw,1'') []
      = [(''A'', [exampleDevice ''A-sw-2-0'' ''sw'' ''A'' 0])]"
    by code_simp
  from pr k2 have "rowLoop ?h skippedRoomColumns [] ''A'' [(2, '',sw,1'')]
      = rowLoop ?h skippedRoomColumns
          (pushReplicas skippedRoomColumns
             (filledRoom skippedRoomColumns ''A'' (parseLine '',sw,1'')) 2 (parseLine '',sw,1'') [])
          (carriedRoom skippedRoomColumns ''A'' (parseLine '',sw,1'')) []"
    by blast
  then have w2: "rowLoop ?h skippedRoomColumns [] ''A'' [(2, '',sw,1'')]
      = [(''A'', [exampleDevice ''A-sw-2-0'' ''sw'' ''A'' 0])]"
    unfolding push by simp
  have ix: "idxRoom (columnsOf exampleCsv) = Some 0"
    by (simp add: example_columns exampleColumns_def)
  have j: "1 < length ?rows" by (simp add: example_rows)
  have cells: "map (\<lambda>r. roomCell 0 (fst (snd r))) ?rows = [Some ''A'', None, Some ''B'']"
    unfolding example_rows by code_simp
  have c1: "roomCell 0 (fst (snd (?rows ! 1))) = None"
    using cells by (simp add: example_rows)
  from ex ix j have "snd (snd (?rows ! 1))
      = nearestFilled defaultRoom (map (\<lambda>r. roomCell 0 (fst (snd r))) ?rows) 1"
    by blast
  then have r1: "snd (snd (?rows ! 1)) = ''A''"
    unfolding cells by (simp add: nearestFilled_def)
  have g: "?g \<in> set (parseCSV exampleCsv)" by (simp add: example_result)
  from ex g have "map unplaced (devices ?g)
      = filter (\<lambda>d. room d = roomId ?g)
          (concat (map (rowRecords (columnsOf exampleCsv)) ?rows))"
    by blast
  then have u: "map unplaced (devices ?g)
      = [exampleDevice ''A-srv-1-0'' ''srv'' ''A'' 500, exampleDevice ''A-srv-1-1'' ''srv'' ''A'' 500,
         exampleDevice ''A-sw-2-0'' ''sw'' ''A'' 100]"
    unfolding importedRecords_def [symmetric] example_records
    by (simp add: example_result exampleDevice_def)
  have "map name (map unplaced (devices ?g)) = [''srv'', ''srv'', ''sw'']"
    unfolding u by (simp add: exampleDevice_def)
  then have n: "map name (devices ?g) = [''srv'', ''srv'', ''sw'']"
    by (simp add: comp_def unplaced_fields)
  have "map room (map unplaced (devices ?g)) = [''A'', ''A'', ''A'']"
    unfolding u by (simp add: exampleDevice_def)
  then have rm: "map room (devices ?g) = [''A'', ''A'', ''A'']"
    by (simp add: comp_def unplaced_fields)
  have m: "?rows ! 2 \<in> set ?rows" by (simp add: example_rows)
  have recs: "rowRecords (columnsOf exampleCsv) (?rows ! 2) = [exampleDevice ''B-ups-3-0'' ''ups'' ''B'' 0]"
    unfolding example_columns example_rows by code_simp
  have e: "rowRecords (columnsOf exampleCsv) (?rows ! 2) ! 0
      \<in> set (rowRecords (columnsOf exampleCsv) (?rows ! 2))"
    by (simp add: recs)
  from ex m e have "room (rowRecords (columnsOf exampleCsv) (?rows ! 2) ! 0) = snd (snd (?rows ! 2))"
    by blast
  then have r2: "room (rowRecords (columnsOf exampleCsv) (?rows ! 2) ! 0) = ''B''"
    by (simp add: example_rows)
  have nix: "idxRoom (columnsOf negativeCsv) = None"
    by (simp add: negative_columns negativeColumns_def)
  have nm: "importedRows negativeCsv ! 0 \<in> set (importedRows negativeCsv)"
    by (simp add: negative_rows)
  from pr nix nm have "snd (snd (importedRows negativeCsv ! 0)) = defaultRoom"
    by blast
  then have nr: "snd (snd (importedRows negativeCsv ! 0)) = ''Default Room''"
    by (simp add: defaultRoom_def)
  from k1 w1 k2 w2 ix j c1 r1 g n rm m e r2 nix nm nr show ?thesis by blast
qed

end
